theory Spec2Isabelle
  imports Complex_Main "HOL-Library.Multiset"
begin

section \<open>Numbers, constants and balance presets (engine/Utils.ts)\<close>

text \<open>
  The game computes with JavaScript numbers. Continuous quantities (positions, radii,
  health, damage, time) are modelled as \<^typ>\<open>real\<close>; counters that the program only ever
  steps by one or compares as whole numbers (pierce count, level, enemy counts, danger
  level, grid columns and rows) are modelled as \<^typ>\<open>int\<close>. Rounding of doubles is not
  modelled.
\<close>

definition ARENA_WIDTH :: real where
  "ARENA_WIDTH = 3000"

definition ARENA_HEIGHT :: real where
  "ARENA_HEIGHT = 2000"

definition SPATIAL_CELL_SIZE :: real where
  "SPATIAL_CELL_SIZE = 120"

datatype EnemyType = Basic | Fast | Tank | Boss | Ranged | Exploder

text \<open>The numeric value of the enum, used to index the per-type multiplier arrays.\<close>

fun typeIdx :: "EnemyType \<Rightarrow> nat" where
  "typeIdx Basic = 0"
| "typeIdx Fast = 1"
| "typeIdx Tank = 2"
| "typeIdx Boss = 3"
| "typeIdx Ranged = 4"
| "typeIdx Exploder = 5"

text \<open>
  \<open>BalanceConfig\<close>: the tunables read by the modelled operations. The upgrade
  increments, combo tuning and drop chance are read only by code that is not modelled
  here and are left out.
\<close>

record BalanceConfig =
  playerMaxHealth :: real
  playerInvulnDuration :: real
  xpPerLevelBase :: real
  xpPerLevelMult :: real
  baseSpawnInterval :: real
  minSpawnInterval :: real
  spawnIntervalDecay :: real
  maxSpawnPerTick :: int
  initialSpawnDelay :: real
  maxEnemies :: int
  bossInterval :: int
  dangerPeriod :: real
  spawnCountDivisor :: real
  enemySpeedScale :: real
  enemyHpScale :: real
  enemyContactCooldown :: real
  enemyHpMult :: "real list"
  enemySpeedMult :: "real list"
  enemyDamageMult :: "real list"
  explodeRadius :: real
  earlyPhaseEnd :: real
  midPhaseEnd :: real

definition EASY :: BalanceConfig where
  "EASY = \<lparr> playerMaxHealth = 8, playerInvulnDuration = 3/2,
     xpPerLevelBase = 3, xpPerLevelMult = 5,
     baseSpawnInterval = 3, minSpawnInterval = 6/10, spawnIntervalDecay = 8/1000,
     maxSpawnPerTick = 3, initialSpawnDelay = 3, maxEnemies = 120,
     bossInterval = 8, dangerPeriod = 40, spawnCountDivisor = 60,
     enemySpeedScale = 8/100, enemyHpScale = 15/100, enemyContactCooldown = 8/10,
     enemyHpMult = [7/10, 8/10, 7/10, 6/10, 8/10, 8/10],
     enemySpeedMult = [85/100, 85/100, 85/100, 85/100, 85/100, 85/100],
     enemyDamageMult = [1, 1, 1, 1, 1, 7/10],
     explodeRadius = 60, earlyPhaseEnd = 50, midPhaseEnd = 120 \<rparr>"

definition NORMAL :: BalanceConfig where
  "NORMAL = \<lparr> playerMaxHealth = 5, playerInvulnDuration = 1,
     xpPerLevelBase = 5, xpPerLevelMult = 8,
     baseSpawnInterval = 2, minSpawnInterval = 3/10, spawnIntervalDecay = 15/1000,
     maxSpawnPerTick = 5, initialSpawnDelay = 2, maxEnemies = 200,
     bossInterval = 5, dangerPeriod = 30, spawnCountDivisor = 45,
     enemySpeedScale = 15/100, enemyHpScale = 3/10, enemyContactCooldown = 1/2,
     enemyHpMult = [1, 1, 1, 1, 1, 1],
     enemySpeedMult = [1, 1, 1, 1, 1, 1],
     enemyDamageMult = [1, 1, 1, 1, 1, 1],
     explodeRadius = 80, earlyPhaseEnd = 30, midPhaseEnd = 90 \<rparr>"

definition HARD :: BalanceConfig where
  "HARD = \<lparr> playerMaxHealth = 4, playerInvulnDuration = 7/10,
     xpPerLevelBase = 7, xpPerLevelMult = 10,
     baseSpawnInterval = 3/2, minSpawnInterval = 2/10, spawnIntervalDecay = 2/100,
     maxSpawnPerTick = 6, initialSpawnDelay = 3/2, maxEnemies = 250,
     bossInterval = 4, dangerPeriod = 25, spawnCountDivisor = 35,
     enemySpeedScale = 2/10, enemyHpScale = 4/10, enemyContactCooldown = 35/100,
     enemyHpMult = [13/10, 12/10, 13/10, 12/10, 12/10, 12/10],
     enemySpeedMult = [11/10, 11/10, 11/10, 11/10, 11/10, 115/100],
     enemyDamageMult = [1, 1, 3/2, 3/2, 1, 3/2],
     explodeRadius = 100, earlyPhaseEnd = 20, midPhaseEnd = 60 \<rparr>"

definition NIGHTMARE :: BalanceConfig where
  "NIGHTMARE = \<lparr> playerMaxHealth = 3, playerInvulnDuration = 4/10,
     xpPerLevelBase = 10, xpPerLevelMult = 14,
     baseSpawnInterval = 1, minSpawnInterval = 12/100, spawnIntervalDecay = 3/100,
     maxSpawnPerTick = 8, initialSpawnDelay = 1/2, maxEnemies = 350,
     bossInterval = 3, dangerPeriod = 20, spawnCountDivisor = 25,
     enemySpeedScale = 25/100, enemyHpScale = 1/2, enemyContactCooldown = 2/10,
     enemyHpMult = [15/10, 15/10, 16/10, 15/10, 14/10, 14/10],
     enemySpeedMult = [12/10, 12/10, 115/100, 115/100, 115/100, 13/10],
     enemyDamageMult = [3/2, 3/2, 2, 2, 3/2, 2],
     explodeRadius = 120, earlyPhaseEnd = 12, midPhaseEnd = 40 \<rparr>"

definition clamp :: "real \<Rightarrow> real \<Rightarrow> real \<Rightarrow> real" where
  "clamp val lo hi = (if val < lo then lo else if val > hi then hi else val)"

definition distSq :: "real \<Rightarrow> real \<Rightarrow> real \<Rightarrow> real \<Rightarrow> real" where
  "distSq x1 y1 x2 y2 = (let dx = x2 - x1; dy = y2 - y1 in dx * dx + dy * dy)"

definition circlesOverlap :: "real \<Rightarrow> real \<Rightarrow> real \<Rightarrow> real \<Rightarrow> real \<Rightarrow> real \<Rightarrow> bool" where
  "circlesOverlap x1 y1 r1 x2 y2 r2 =
     (let dx = x2 - x1; dy = y2 - y1; combined = r1 + r2
      in dx * dx + dy * dy \<le> combined * combined)"

section \<open>Player (entities/Player.ts)\<close>

text \<open>
  The Player fields that \<open>takeDamage\<close>, \<open>heal\<close>, \<open>checkLevelUp\<close>, \<open>reset\<close> and the
  collision resolver read or write. Weapon, dash, combo and rendering fields are not
  touched by any of these and are left out. Calls to the audio sink have no effect on
  the simulation state and are dropped.
\<close>

record Player =
  p_x :: real
  p_y :: real
  p_radius :: real
  p_maxHealth :: real
  p_health :: real
  p_invulnTimer :: real
  p_isInvuln :: bool
  p_xp :: real
  p_level :: int
  p_killCount :: int
  p_alive :: bool

text \<open>\<open>Player.reset(x, y)\<close>: every modelled field is reinitialised (radius stays 16).\<close>

definition reset :: "BalanceConfig \<Rightarrow> real \<Rightarrow> real \<Rightarrow> Player" where
  "reset bal x y = \<lparr> p_x = x, p_y = y, p_radius = 16,
     p_maxHealth = playerMaxHealth bal, p_health = playerMaxHealth bal,
     p_invulnTimer = 0, p_isInvuln = False,
     p_xp = 0, p_level = 1, p_killCount = 0, p_alive = True \<rparr>"

definition xpToNextLevel :: "BalanceConfig \<Rightarrow> Player \<Rightarrow> real" where
  "xpToNextLevel bal p = of_int (p_level p) * xpPerLevelMult bal + xpPerLevelBase bal"

text \<open>\<open>Player.checkLevelUp()\<close>: the updated player and the returned flag.\<close>

definition checkLevelUp :: "BalanceConfig \<Rightarrow> Player \<Rightarrow> Player \<times> bool" where
  "checkLevelUp bal p =
     (let needed = xpToNextLevel bal p
      in if p_xp p \<ge> needed
         then (p\<lparr> p_xp := p_xp p - needed, p_level := p_level p + 1 \<rparr>, True)
         else (p, False))"

text \<open>\<open>Player.takeDamage(amount)\<close>: the updated player and whether the player died.\<close>

definition takeDamage :: "BalanceConfig \<Rightarrow> real \<Rightarrow> Player \<Rightarrow> Player \<times> bool" where
  "takeDamage bal amount p =
     (if p_isInvuln p then (p, False)
      else
        (let p1 = p\<lparr> p_health := p_health p - amount,
                     p_invulnTimer := playerInvulnDuration bal,
                     p_isInvuln := True \<rparr>
         in if p_health p1 \<le> 0
            then (p1\<lparr> p_health := 0, p_alive := False \<rparr>, True)
            else (p1, False)))"

text \<open>\<open>Player.heal(amount)\<close>.\<close>

definition heal :: "real \<Rightarrow> Player \<Rightarrow> Player" where
  "heal amount p =
     (let p1 = p\<lparr> p_health := p_health p + amount \<rparr>
      in if p_health p1 > p_maxHealth p1 then p1\<lparr> p_health := p_maxHealth p1 \<rparr> else p1)"

text \<open>
  The invulnerability countdown of \<open>Player.update(dt, ...)\<close>: the only statement of
  \<open>update\<close> that writes one of the fields \<open>takeDamage\<close> reads. It is what lets a second
  damage application take effect later in a run.
\<close>

definition invulnCountdown :: "real \<Rightarrow> Player \<Rightarrow> Player" where
  "invulnCountdown dt p =
     (if p_invulnTimer p > 0
      then (let t = p_invulnTimer p - dt in p\<lparr> p_invulnTimer := t, p_isInvuln := (t > 0) \<rparr>)
      else p)"

text \<open>A run of calls on the player, in program order.\<close>

datatype PlayerCall = TakeDamage real | Heal real | Countdown real

fun applyCall :: "BalanceConfig \<Rightarrow> Player \<Rightarrow> PlayerCall \<Rightarrow> Player" where
  "applyCall bal p (TakeDamage a) = fst (takeDamage bal a p)"
| "applyCall bal p (Heal a) = heal a p"
| "applyCall bal p (Countdown dt) = invulnCountdown dt p"

definition runCalls :: "BalanceConfig \<Rightarrow> PlayerCall list \<Rightarrow> Player \<Rightarrow> Player" where
  "runCalls bal cs p = foldl (applyCall bal) p cs"

text \<open>
  Damage and heal amounts are never negative in the program: damage is a rounded-up
  positive enemy stat, healing is gated by \<open>healthGained > 0\<close>.
\<close>

fun validCall :: "PlayerCall \<Rightarrow> bool" where
  "validCall (TakeDamage a) = (0 \<le> a)"
| "validCall (Heal a) = (0 \<le> a)"
| "validCall (Countdown dt) = True"

section \<open>Enemy (entities/Enemy.ts)\<close>

record EnemyConfig =
  cfg_radius :: real
  cfg_speed :: real
  cfg_hp :: real
  cfg_damage :: real
  cfg_color :: string
  cfg_xpValue :: real

text \<open>The table \<open>ENEMY_CONFIGS\<close>, indexed by enemy type.\<close>

fun ENEMY_CONFIGS :: "EnemyType \<Rightarrow> EnemyConfig" where
  "ENEMY_CONFIGS Basic = \<lparr> cfg_radius = 14, cfg_speed = 80, cfg_hp = 3, cfg_damage = 1,
     cfg_color = ''#e74c3c'', cfg_xpValue = 1 \<rparr>"
| "ENEMY_CONFIGS Fast = \<lparr> cfg_radius = 10, cfg_speed = 160, cfg_hp = 1, cfg_damage = 1,
     cfg_color = ''#e67e22'', cfg_xpValue = 1 \<rparr>"
| "ENEMY_CONFIGS Tank = \<lparr> cfg_radius = 24, cfg_speed = 50, cfg_hp = 10, cfg_damage = 2,
     cfg_color = ''#8e44ad'', cfg_xpValue = 3 \<rparr>"
| "ENEMY_CONFIGS Boss = \<lparr> cfg_radius = 40, cfg_speed = 40, cfg_hp = 50, cfg_damage = 3,
     cfg_color = ''#ff1744'', cfg_xpValue = 15 \<rparr>"
| "ENEMY_CONFIGS Ranged = \<lparr> cfg_radius = 12, cfg_speed = 60, cfg_hp = 4, cfg_damage = 1,
     cfg_color = ''#29b6f6'', cfg_xpValue = 2 \<rparr>"
| "ENEMY_CONFIGS Exploder = \<lparr> cfg_radius = 16, cfg_speed = 120, cfg_hp = 2, cfg_damage = 3,
     cfg_color = ''#fdd835'', cfg_xpValue = 2 \<rparr>"

definition FLASH_DURATION :: real where
  "FLASH_DURATION = 1/10"

text \<open>
  The Enemy fields used by construction, damage, contact cooldown and the collision
  resolver. The ranged-fire parameters and the polygon side count are read only by
  \<open>Enemy.update\<close> and \<open>render\<close> and are left out.
\<close>

record Enemy =
  e_x :: real
  e_y :: real
  e_radius :: real
  e_speed :: real
  e_hp :: real
  e_maxHp :: real
  e_damage :: real
  e_color :: string
  e_xpValue :: real
  e_type :: EnemyType
  e_alive :: bool
  e_contactCooldown :: real
  e_contactCooldownTime :: real
  e_flashTimer :: real
  e_explodeRadius :: real
  e_isBoss :: bool

text \<open>
  The Enemy constructor. Every preset's multiplier arrays have one entry per enemy type,
  so the reads \<open>bal.enemyHpMult[typeIdx]\<close> are in range.
\<close>

definition newEnemy :: "real \<Rightarrow> real \<Rightarrow> EnemyType \<Rightarrow> real \<Rightarrow> BalanceConfig \<Rightarrow> Enemy" where
  "newEnemy x y ty difficultyScale bal =
     (let cfg = ENEMY_CONFIGS ty;
          idx = typeIdx ty;
          hp = of_int \<lceil>cfg_hp cfg * (enemyHpMult bal ! idx) * (1 + difficultyScale * enemyHpScale bal)\<rceil>
      in \<lparr> e_x = x, e_y = y, e_radius = cfg_radius cfg,
           e_speed = cfg_speed cfg * (enemySpeedMult bal ! idx) * (1 + difficultyScale * enemySpeedScale bal),
           e_hp = hp, e_maxHp = hp,
           e_damage = of_int \<lceil>cfg_damage cfg * (enemyDamageMult bal ! idx)\<rceil>,
           e_color = cfg_color cfg, e_xpValue = cfg_xpValue cfg,
           e_type = ty, e_alive = True,
           e_contactCooldown = 0, e_contactCooldownTime = enemyContactCooldown bal,
           e_flashTimer = 0,
           e_explodeRadius = (if ty = Exploder then explodeRadius bal else 0),
           e_isBoss = (ty = Boss) \<rparr>)"

text \<open>\<open>Enemy.takeDamage(amount)\<close>: the updated enemy and whether it died.\<close>

definition enemyTakeDamage :: "real \<Rightarrow> Enemy \<Rightarrow> Enemy \<times> bool" where
  "enemyTakeDamage amount e =
     (let e1 = e\<lparr> e_hp := e_hp e - amount, e_flashTimer := FLASH_DURATION \<rparr>
      in if e_hp e1 \<le> 0 then (e1\<lparr> e_alive := False \<rparr>, True) else (e1, False))"

definition canDealContactDamage :: "Enemy \<Rightarrow> bool" where
  "canDealContactDamage e = (e_contactCooldown e \<le> 0)"

definition resetContactCooldown :: "Enemy \<Rightarrow> Enemy" where
  "resetContactCooldown e = e\<lparr> e_contactCooldown := e_contactCooldownTime e \<rparr>"

section \<open>Bullet (entities/Bullet.ts)\<close>

definition MAX_TRAIL_LENGTH :: nat where
  "MAX_TRAIL_LENGTH = 6"

definition BULLET_OOB_BUFFER :: real where
  "BULLET_OOB_BUFFER = 50"

record Bullet =
  b_x :: real
  b_y :: real
  b_vx :: real
  b_vy :: real
  b_radius :: real
  b_damage :: real
  b_pierceLeft :: int
  b_alive :: bool
  b_isEnemyBullet :: bool
  b_trail :: "(real \<times> real) list"

text \<open>The Bullet constructor (\<open>isEnemyBullet\<close> defaults to false at the call sites that omit it).\<close>

definition newBullet :: "real \<Rightarrow> real \<Rightarrow> real \<Rightarrow> real \<Rightarrow> real \<Rightarrow> real \<Rightarrow> int \<Rightarrow> bool \<Rightarrow> Bullet" where
  "newBullet x y vx vy radius damage pierce isEnemyBullet =
     \<lparr> b_x = x, b_y = y, b_vx = vx, b_vy = vy, b_radius = radius, b_damage = damage,
       b_pierceLeft = pierce, b_alive = True, b_isEnemyBullet = isEnemyBullet, b_trail = [] \<rparr>"

text \<open>The out-of-bounds test of \<open>Bullet.update\<close>.\<close>

definition outOfBounds :: "real \<Rightarrow> real \<Rightarrow> bool" where
  "outOfBounds x y =
     (x < - BULLET_OOB_BUFFER \<or> x > ARENA_WIDTH + BULLET_OOB_BUFFER
      \<or> y < - BULLET_OOB_BUFFER \<or> y > ARENA_HEIGHT + BULLET_OOB_BUFFER)"

text \<open>\<open>Bullet.update(dt)\<close>.\<close>

definition bulletUpdate :: "real \<Rightarrow> Bullet \<Rightarrow> Bullet" where
  "bulletUpdate dt b =
     (let t1 = b_trail b @ [(b_x b, b_y b)];
          t2 = (if length t1 > MAX_TRAIL_LENGTH then tl t1 else t1);
          x' = b_x b + b_vx b * dt;
          y' = b_y b + b_vy b * dt;
          b1 = b\<lparr> b_trail := t2, b_x := x', b_y := y' \<rparr>
      in if outOfBounds x' y' then b1\<lparr> b_alive := False \<rparr> else b1)"

section \<open>Pickup (entities/Pickup.ts)\<close>

datatype PickupType = XP | Health

text \<open>The Pickup fields the collision resolver reads or writes.\<close>

record Pickup =
  k_x :: real
  k_y :: real
  k_radius :: real
  k_type :: PickupType
  k_value :: real
  k_alive :: bool

section \<open>Spatial grid (systems/Collision.ts)\<close>

text \<open>
  The grid stores references to entities. A reference is modelled as a value of type
  \<open>'a\<close> (for the enemy grid, the index of the enemy in the enemy array); \<open>insert\<close>
  receives the referenced entity's position with it. Reading \<open>this.cells[k]\<close> outside
  the array yields \<open>undefined\<close>, and the following \<open>.push\<close> or \<open>.length\<close> throws a
  TypeError: that outcome is \<open>None\<close>.
\<close>

record 'a SpatialGrid =
  g_cellSize :: real
  g_cols :: int
  g_rows :: int
  g_cells :: "'a list list"
  g_cellCount :: int

definition newSpatialGrid :: "real \<Rightarrow> real \<Rightarrow> real \<Rightarrow> 'a SpatialGrid" where
  "newSpatialGrid width height cellSize =
     (let cols = \<lceil>width / cellSize\<rceil> + 1;
          rows = \<lceil>height / cellSize\<rceil> + 1;
          cellCount = cols * rows
      in \<lparr> g_cellSize = cellSize, g_cols = cols, g_rows = rows,
           g_cells = replicate (nat cellCount) [], g_cellCount = cellCount \<rparr>)"

text \<open>
  \<open>clear()\<close> empties the cells with index below \<open>cellCount\<close>; a missing cell in that range
  is a TypeError.
\<close>

definition clear :: "'a SpatialGrid \<Rightarrow> 'a SpatialGrid option" where
  "clear g =
     (if g_cellCount g \<le> int (length (g_cells g))
      then Some (g\<lparr> g_cells := replicate (nat (g_cellCount g)) [] @ drop (nat (g_cellCount g)) (g_cells g) \<rparr>)
      else None)"

definition getKey :: "'a SpatialGrid \<Rightarrow> int \<Rightarrow> int \<Rightarrow> int" where
  "getKey g col row = row * g_cols g + col"

definition insert_grid :: "'a SpatialGrid \<Rightarrow> real \<Rightarrow> real \<Rightarrow> 'a \<Rightarrow> 'a SpatialGrid option" where
  "insert_grid g ex ey entity =
     (let col = max 0 (min (g_cols g - 1) \<lfloor>ex / g_cellSize g\<rfloor>);
          row = max 0 (min (g_rows g - 1) \<lfloor>ey / g_cellSize g\<rfloor>);
          key = getKey g col row
      in if 0 \<le> key \<and> key < int (length (g_cells g))
         then Some (g\<lparr> g_cells := (g_cells g)[nat key := g_cells g ! nat key @ [entity]] \<rparr>)
         else None)"

text \<open>One cell read of \<open>queryCircle\<close>.\<close>

definition cellAt :: "'a SpatialGrid \<Rightarrow> int \<Rightarrow> 'a list option" where
  "cellAt g key =
     (if 0 \<le> key \<and> key < int (length (g_cells g)) then Some (g_cells g ! nat key) else None)"

text \<open>The two nested loops of \<open>queryCircle\<close>: columns of one row, then the rows.\<close>

fun queryRow :: "'a SpatialGrid \<Rightarrow> int \<Rightarrow> int list \<Rightarrow> 'a list \<Rightarrow> 'a list option" where
  "queryRow g r [] results = Some results"
| "queryRow g r (c # cs) results =
     (case cellAt g (getKey g c r) of
        None \<Rightarrow> None
      | Some cell \<Rightarrow> queryRow g r cs (results @ cell))"

fun queryRows :: "'a SpatialGrid \<Rightarrow> int list \<Rightarrow> int list \<Rightarrow> 'a list \<Rightarrow> 'a list option" where
  "queryRows g [] cs results = Some results"
| "queryRows g (r # rs) cs results =
     (case queryRow g r cs results of
        None \<Rightarrow> None
      | Some results' \<Rightarrow> queryRows g rs cs results')"

definition queryCircle :: "'a SpatialGrid \<Rightarrow> real \<Rightarrow> real \<Rightarrow> real \<Rightarrow> 'a list option" where
  "queryCircle g x y radius =
     (let minCol = max 0 \<lfloor>(x - radius) / g_cellSize g\<rfloor>;
          maxCol = min (g_cols g - 1) \<lfloor>(x + radius) / g_cellSize g\<rfloor>;
          minRow = max 0 \<lfloor>(y - radius) / g_cellSize g\<rfloor>;
          maxRow = min (g_rows g - 1) \<lfloor>(y + radius) / g_cellSize g\<rfloor>
      in queryRows g [minRow..maxRow] [minCol..maxCol] [])"

section \<open>Collision resolver (systems/Collision.ts)\<close>

text \<open>
  \<open>CollisionResult\<close>. The arrays \<open>enemiesKilled\<close> and \<open>exploderDeaths\<close> hold references to
  enemies: here, their indices in the enemy array.
\<close>

record CollisionResult =
  r_playerHit :: bool
  r_enemiesKilled :: "nat list"
  r_xpGained :: real
  r_healthGained :: real
  r_exploderDeaths :: "nat list"
  r_enemyHitPositions :: "(real \<times> real \<times> real) list"
  r_hitPositions :: "(real \<times> real \<times> string) list"

definition resetResult :: CollisionResult where
  "resetResult = \<lparr> r_playerHit = False, r_enemiesKilled = [], r_xpGained = 0,
     r_healthGained = 0, r_exploderDeaths = [], r_enemyHitPositions = [],
     r_hitPositions = [] \<rparr>"

text \<open>
  What the checks mutate in place: the player, the enemy objects (the store that the
  references point into) and the result.
\<close>

record CollisionState =
  c_player :: Player
  c_enemies :: "Enemy list"
  c_result :: CollisionResult

text \<open>Building the grid: every alive enemy is inserted, in array order.\<close>

fun insertEnemies :: "nat SpatialGrid \<Rightarrow> Enemy list \<Rightarrow> nat list \<Rightarrow> nat SpatialGrid option" where
  "insertEnemies g enemies [] = Some g"
| "insertEnemies g enemies (i # is) =
     (if e_alive (enemies ! i)
      then (case insert_grid g (e_x (enemies ! i)) (e_y (enemies ! i)) i of
              None \<Rightarrow> None
            | Some g' \<Rightarrow> insertEnemies g' enemies is)
      else insertEnemies g enemies is)"

definition buildGrid :: "nat SpatialGrid \<Rightarrow> Enemy list \<Rightarrow> nat SpatialGrid option" where
  "buildGrid g enemies =
     (case clear g of
        None \<Rightarrow> None
      | Some g0 \<Rightarrow> insertEnemies g0 enemies [0..<length enemies])"

text \<open>
  Check 1, the body of the overlap branch before the pierce logic: the enemy takes the
  bullet's damage, the hit is recorded for damage numbers and particles, and a kill is
  recorded (with the kill counter, and the detonation list for an Exploder).
\<close>

definition bulletHit :: "nat \<Rightarrow> Bullet \<Rightarrow> CollisionState \<Rightarrow> CollisionState" where
  "bulletHit i b s =
     (let enemy = c_enemies s ! i;
          enemy' = fst (enemyTakeDamage (b_damage b) enemy);
          killed = snd (enemyTakeDamage (b_damage b) enemy);
          res = c_result s;
          res1 = res\<lparr> r_enemyHitPositions :=
                        r_enemyHitPositions res @ [(e_x enemy', e_y enemy' - e_radius enemy', b_damage b)],
                      r_hitPositions :=
                        r_hitPositions res @ [((b_x b + e_x enemy') / 2, (b_y b + e_y enemy') / 2, e_color enemy')] \<rparr>;
          res2 = (if killed
                  then res1\<lparr> r_enemiesKilled := r_enemiesKilled res1 @ [i],
                              r_exploderDeaths :=
                                (if e_type enemy' = Exploder then r_exploderDeaths res1 @ [i]
                                 else r_exploderDeaths res1) \<rparr>
                  else res1);
          pl = (if killed then (c_player s)\<lparr> p_killCount := p_killCount (c_player s) + 1 \<rparr>
                else c_player s)
      in s\<lparr> c_player := pl, c_enemies := (c_enemies s)[i := enemy'], c_result := res2 \<rparr>)"

text \<open>Check 1, the loop over the candidates returned by the grid for one bullet.\<close>

fun bulletVsEnemies :: "nat list \<Rightarrow> Bullet \<Rightarrow> CollisionState \<Rightarrow> Bullet \<times> CollisionState" where
  "bulletVsEnemies [] b s = (b, s)"
| "bulletVsEnemies (i # nearby) b s =
     (if \<not> e_alive (c_enemies s ! i) then bulletVsEnemies nearby b s
      else if circlesOverlap (b_x b) (b_y b) (b_radius b)
                (e_x (c_enemies s ! i)) (e_y (c_enemies s ! i)) (e_radius (c_enemies s ! i))
      then (if b_pierceLeft b > 0
            then bulletVsEnemies nearby (b\<lparr> b_pierceLeft := b_pierceLeft b - 1 \<rparr>) (bulletHit i b s)
            else (b\<lparr> b_alive := False \<rparr>, bulletHit i b s))
      else bulletVsEnemies nearby b s)"

text \<open>Check 1, the loop over the player bullets.\<close>

fun checkPlayerBullets ::
  "nat SpatialGrid \<Rightarrow> Bullet list \<Rightarrow> CollisionState \<Rightarrow> (Bullet list \<times> CollisionState) option" where
  "checkPlayerBullets g [] s = Some ([], s)"
| "checkPlayerBullets g (b # bs) s =
     (if \<not> b_alive b
      then (case checkPlayerBullets g bs s of
              None \<Rightarrow> None
            | Some (bs', s') \<Rightarrow> Some (b # bs', s'))
      else (case queryCircle g (b_x b) (b_y b) (b_radius b + 50) of
              None \<Rightarrow> None
            | Some nearby \<Rightarrow>
                (case checkPlayerBullets g bs (snd (bulletVsEnemies nearby b s)) of
                   None \<Rightarrow> None
                 | Some (bs', s') \<Rightarrow> Some (fst (bulletVsEnemies nearby b s) # bs', s'))))"

text \<open>Check 2: enemy bullets against the player. The gate is tested once, before the loop.\<close>

fun enemyBulletLoop ::
  "BalanceConfig \<Rightarrow> Bullet list \<Rightarrow> CollisionState \<Rightarrow> Bullet list \<times> CollisionState" where
  "enemyBulletLoop bal [] s = ([], s)"
| "enemyBulletLoop bal (b # bs) s =
     (if \<not> b_alive b
      then (b # fst (enemyBulletLoop bal bs s), snd (enemyBulletLoop bal bs s))
      else if circlesOverlap (b_x b) (b_y b) (b_radius b)
                (p_x (c_player s)) (p_y (c_player s)) (p_radius (c_player s))
      then (let s' = s\<lparr> c_player := fst (takeDamage bal (b_damage b) (c_player s)),
                         c_result := (c_result s)\<lparr> r_playerHit := True \<rparr> \<rparr>
            in (b\<lparr> b_alive := False \<rparr> # fst (enemyBulletLoop bal bs s'),
                snd (enemyBulletLoop bal bs s')))
      else (b # fst (enemyBulletLoop bal bs s), snd (enemyBulletLoop bal bs s)))"

definition checkEnemyBullets ::
  "BalanceConfig \<Rightarrow> Bullet list \<Rightarrow> CollisionState \<Rightarrow> Bullet list \<times> CollisionState" where
  "checkEnemyBullets bal enemyBullets s =
     (if p_alive (c_player s) \<and> \<not> p_isInvuln (c_player s)
      then enemyBulletLoop bal enemyBullets s
      else (enemyBullets, s))"

text \<open>Check 3: contact damage, over the candidates near the player; stops when the player dies.\<close>

fun contactLoop :: "BalanceConfig \<Rightarrow> nat list \<Rightarrow> CollisionState \<Rightarrow> CollisionState" where
  "contactLoop bal [] s = s"
| "contactLoop bal (i # nearPlayer) s =
     (if \<not> e_alive (c_enemies s ! i) then contactLoop bal nearPlayer s
      else if \<not> canDealContactDamage (c_enemies s ! i) then contactLoop bal nearPlayer s
      else if circlesOverlap (p_x (c_player s)) (p_y (c_player s)) (p_radius (c_player s))
                (e_x (c_enemies s ! i)) (e_y (c_enemies s ! i)) (e_radius (c_enemies s ! i))
      then (let died = snd (takeDamage bal (e_damage (c_enemies s ! i)) (c_player s));
                s' = s\<lparr> c_player := fst (takeDamage bal (e_damage (c_enemies s ! i)) (c_player s)),
                         c_enemies := (c_enemies s)[i := resetContactCooldown (c_enemies s ! i)],
                         c_result := (c_result s)\<lparr> r_playerHit := True \<rparr> \<rparr>
            in if died then s' else contactLoop bal nearPlayer s')
      else contactLoop bal nearPlayer s)"

definition checkContact ::
  "BalanceConfig \<Rightarrow> nat SpatialGrid \<Rightarrow> CollisionState \<Rightarrow> CollisionState option" where
  "checkContact bal g s =
     (if p_alive (c_player s)
      then (case queryCircle g (p_x (c_player s)) (p_y (c_player s)) (p_radius (c_player s) + 50) of
              None \<Rightarrow> None
            | Some nearPlayer \<Rightarrow> Some (contactLoop bal nearPlayer s))
      else Some s)"

text \<open>Check 4: exploder area damage, over the detonations recorded by check 1.\<close>

fun exploderLoop :: "BalanceConfig \<Rightarrow> nat list \<Rightarrow> CollisionState \<Rightarrow> CollisionState" where
  "exploderLoop bal [] s = s"
| "exploderLoop bal (i # exps) s =
     (if circlesOverlap (p_x (c_player s)) (p_y (c_player s)) (p_radius (c_player s))
           (e_x (c_enemies s ! i)) (e_y (c_enemies s ! i)) (e_explodeRadius (c_enemies s ! i))
      then exploderLoop bal exps
             (s\<lparr> c_player := fst (takeDamage bal (e_damage (c_enemies s ! i)) (c_player s)),
                 c_result := (c_result s)\<lparr> r_playerHit := True \<rparr> \<rparr>)
      else exploderLoop bal exps s)"

definition checkExploders :: "BalanceConfig \<Rightarrow> CollisionState \<Rightarrow> CollisionState" where
  "checkExploders bal s =
     (if p_alive (c_player s) \<and> length (r_exploderDeaths (c_result s)) > 0
      then exploderLoop bal (r_exploderDeaths (c_result s)) s
      else s)"

text \<open>Check 5: pickups against the player.\<close>

fun checkPickups :: "Player \<Rightarrow> Pickup list \<Rightarrow> CollisionResult \<Rightarrow> Pickup list \<times> CollisionResult" where
  "checkPickups pl [] res = ([], res)"
| "checkPickups pl (k # ks) res =
     (if \<not> k_alive k
      then (k # fst (checkPickups pl ks res), snd (checkPickups pl ks res))
      else if circlesOverlap (p_x pl) (p_y pl) (p_radius pl + 5) (k_x k) (k_y k) (k_radius k)
      then (let res' = (case k_type k of
                          XP \<Rightarrow> res\<lparr> r_xpGained := r_xpGained res + k_value k \<rparr>
                        | Health \<Rightarrow> res\<lparr> r_healthGained := r_healthGained res + k_value k \<rparr>)
            in (k\<lparr> k_alive := False \<rparr> # fst (checkPickups pl ks res'),
                snd (checkPickups pl ks res')))
      else (k # fst (checkPickups pl ks res), snd (checkPickups pl ks res)))"

text \<open>
  \<open>Collision.checkAll\<close>: everything the call leaves behind. \<open>None\<close> stands for a
  TypeError thrown by a grid access.
\<close>

record CollisionOutput =
  o_grid :: "nat SpatialGrid"
  o_player :: Player
  o_enemies :: "Enemy list"
  o_playerBullets :: "Bullet list"
  o_enemyBullets :: "Bullet list"
  o_pickups :: "Pickup list"
  o_result :: CollisionResult

definition checkAll ::
  "BalanceConfig \<Rightarrow> nat SpatialGrid \<Rightarrow> Player \<Rightarrow> Enemy list \<Rightarrow> Bullet list \<Rightarrow> Bullet list
     \<Rightarrow> Pickup list \<Rightarrow> CollisionOutput option" where
  "checkAll bal grid player enemies playerBullets enemyBullets pickups =
     (case buildGrid grid enemies of
        None \<Rightarrow> None
      | Some g \<Rightarrow>
          (case checkPlayerBullets g playerBullets
                  \<lparr> c_player = player, c_enemies = enemies, c_result = resetResult \<rparr> of
             None \<Rightarrow> None
           | Some (pbs, s1) \<Rightarrow>
               (let ebs = fst (checkEnemyBullets bal enemyBullets s1);
                    s2 = snd (checkEnemyBullets bal enemyBullets s1)
                in case checkContact bal g s2 of
                     None \<Rightarrow> None
                   | Some s3 \<Rightarrow>
                       (let s4 = checkExploders bal s3;
                            pks = fst (checkPickups (c_player s4) pickups (c_result s4));
                            res = snd (checkPickups (c_player s4) pickups (c_result s4))
                        in Some \<lparr> o_grid = g, o_player = c_player s4, o_enemies = c_enemies s4,
                                  o_playerBullets = pbs, o_enemyBullets = ebs, o_pickups = pks,
                                  o_result = res \<rparr>))))"

text \<open>The grid the \<open>Collision\<close> constructor allocates.\<close>

definition enemyGrid :: "nat SpatialGrid" where
  "enemyGrid = newSpatialGrid ARENA_WIDTH ARENA_HEIGHT SPATIAL_CELL_SIZE"

text \<open>
  The shape invariant of a grid: at least one column and one row, and exactly
  \<open>cols * rows\<close> cells. The constructor establishes it; \<open>clear\<close> and \<open>insert\<close> keep it.
\<close>

definition gridShape :: "'a SpatialGrid \<Rightarrow> bool" where
  "gridShape g = (1 \<le> g_cols g \<and> 1 \<le> g_rows g \<and> g_cellCount g = g_cols g * g_rows g
                  \<and> int (length (g_cells g)) = g_cols g * g_rows g)"

section \<open>Entity sweep (engine/Game.ts)\<close>

text \<open>
  \<open>Game.removeDeadEntities(arr)\<close>: the loop \<open>for (i = arr.length - 1; i >= 0; i--)\<close>, with
  the loop counter kept as \<open>i + 1\<close>. The entity type is any type with an \<open>alive\<close> flag,
  passed as the function \<open>alive\<close>. Reading \<open>arr[i]\<close> past the end yields \<open>undefined\<close> and
  \<open>.alive\<close> on it throws a TypeError: that outcome is \<open>None\<close>.
\<close>

fun removeLoop :: "('a \<Rightarrow> bool) \<Rightarrow> nat \<Rightarrow> 'a list \<Rightarrow> 'a list option" where
  "removeLoop alive 0 arr = Some arr"
| "removeLoop alive (Suc i) arr =
     (if i < length arr
      then (if \<not> alive (arr ! i)
            then removeLoop alive i (butlast (arr[i := arr ! (length arr - 1)]))
            else removeLoop alive i arr)
      else None)"

definition removeDeadEntities :: "('a \<Rightarrow> bool) \<Rightarrow> 'a list \<Rightarrow> 'a list option" where
  "removeDeadEntities alive arr = removeLoop alive (length arr) arr"

section \<open>Spawner (systems/Spawner.ts)\<close>

definition SPAWN_BUFFER :: real where
  "SPAWN_BUFFER = 80"

definition DENSITY_CHECK_RADIUS_SQ :: real where
  "DENSITY_CHECK_RADIUS_SQ = 150 * 150"

definition MAX_DENSITY_NEARBY :: int where
  "MAX_DENSITY_NEARBY = 5"

record Spawner =
  s_spawnTimer :: real
  s_elapsedTime :: real
  s_lastBossDangerLevel :: int

text \<open>\<open>Spawner.reset()\<close>.\<close>

definition spawnerReset :: "BalanceConfig \<Rightarrow> Spawner" where
  "spawnerReset bal = \<lparr> s_spawnTimer = initialSpawnDelay bal, s_elapsedTime = 0,
     s_lastBossDangerLevel = 0 \<rparr>"

definition getDangerLevel :: "BalanceConfig \<Rightarrow> Spawner \<Rightarrow> int" where
  "getDangerLevel bal sp = min 10 (\<lfloor>s_elapsedTime sp / dangerPeriod bal\<rfloor> + 1)"

definition getSpawnInterval :: "BalanceConfig \<Rightarrow> Spawner \<Rightarrow> real" where
  "getSpawnInterval bal sp =
     max (minSpawnInterval bal) (baseSpawnInterval bal - s_elapsedTime sp * spawnIntervalDecay bal)"

definition getDifficultyScale :: "Spawner \<Rightarrow> real" where
  "getDifficultyScale sp = s_elapsedTime sp / 60"

text \<open>
  \<open>Math.random()\<close> is modelled by a fixed sequence \<open>rnd\<close> of the values it will return and
  a counter of how many have been drawn; every function that draws returns the new
  counter. \<open>chooseEnemyType\<close> receives its one draw as \<open>roll\<close>.
\<close>

definition chooseEnemyType :: "BalanceConfig \<Rightarrow> Spawner \<Rightarrow> real \<Rightarrow> EnemyType" where
  "chooseEnemyType bal sp roll =
     (let t = s_elapsedTime sp
      in if t < earlyPhaseEnd bal
         then (if roll < 7/10 then Basic else Fast)
         else if t < midPhaseEnd bal
         then (if roll < 3/10 then Basic
               else if roll < 5/10 then Fast
               else if roll < 65/100 then Tank
               else if roll < 8/10 then Ranged
               else Exploder)
         else (if roll < 2/10 then Basic
               else if roll < 35/100 then Fast
               else if roll < 5/10 then Tank
               else if roll < 7/10 then Ranged
               else Exploder))"

text \<open>The random source used in the examples: every draw returns one half.\<close>

definition steadyRandom :: "nat \<Rightarrow> real" where
  "steadyRandom n = 1/2"

definition randFloat :: "real \<Rightarrow> real \<Rightarrow> real \<Rightarrow> real" where
  "randFloat lo hi r = lo + r * (hi - lo)"

definition randInt :: "real \<Rightarrow> real \<Rightarrow> real \<Rightarrow> int" where
  "randInt lo hi r = \<lfloor>lo + r * (hi - lo + 1)\<rfloor>"

text \<open>\<open>getSpawnPosition\<close> draws twice: the edge, then the position along it.\<close>

definition getSpawnPosition ::
  "(nat \<Rightarrow> real) \<Rightarrow> nat \<Rightarrow> real \<Rightarrow> real \<Rightarrow> real \<Rightarrow> real \<Rightarrow> (real \<times> real) \<times> nat" where
  "getSpawnPosition rnd n camX camY viewW viewH =
     (let halfW = viewW / 2;
          halfH = viewH / 2;
          edge = randInt 0 3 (rnd n);
          r = rnd (n + 1);
          sx = (if edge = 0 then camX + randFloat (- halfW) halfW r
                else if edge = 1 then camX + halfW + SPAWN_BUFFER
                else if edge = 2 then camX + randFloat (- halfW) halfW r
                else camX - halfW - SPAWN_BUFFER);
          sy = (if edge = 0 then camY - halfH - SPAWN_BUFFER
                else if edge = 1 then camY + randFloat (- halfH) halfH r
                else if edge = 2 then camY + halfH + SPAWN_BUFFER
                else camY + randFloat (- halfH) halfH r)
      in ((clamp sx 10 (ARENA_WIDTH - 10), clamp sy 10 (ARENA_HEIGHT - 10)), n + 2))"

text \<open>\<open>countNearby\<close>, with the running count as an argument.\<close>

fun countNearbyFrom :: "real \<Rightarrow> real \<Rightarrow> Enemy list \<Rightarrow> int \<Rightarrow> int" where
  "countNearbyFrom x y [] cnt = cnt"
| "countNearbyFrom x y (e # es) cnt =
     (if \<not> e_alive e then countNearbyFrom x y es cnt
      else if distSq x y (e_x e) (e_y e) < DENSITY_CHECK_RADIUS_SQ
      then (if cnt + 1 \<ge> MAX_DENSITY_NEARBY then cnt + 1
            else countNearbyFrom x y es (cnt + 1))
      else countNearbyFrom x y es cnt)"

definition countNearby :: "real \<Rightarrow> real \<Rightarrow> Enemy list \<Rightarrow> int" where
  "countNearby x y enemies = countNearbyFrom x y enemies 0"

text \<open>The retry loop of \<open>getSpawnPositionWithDensityCheck\<close>, by the number of attempts left.\<close>

fun densityAttempts ::
  "(nat \<Rightarrow> real) \<Rightarrow> real \<Rightarrow> real \<Rightarrow> real \<Rightarrow> real \<Rightarrow> Enemy list \<Rightarrow> nat
     \<Rightarrow> (real \<times> real) \<Rightarrow> int \<Rightarrow> nat \<Rightarrow> (real \<times> real) \<times> nat" where
  "densityAttempts rnd camX camY viewW viewH existing 0 bestPos bestCount n = (bestPos, n)"
| "densityAttempts rnd camX camY viewW viewH existing (Suc k) bestPos bestCount n =
     (let candidate = fst (getSpawnPosition rnd n camX camY viewW viewH);
          n' = snd (getSpawnPosition rnd n camX camY viewW viewH);
          cnt = countNearby (fst candidate) (snd candidate) existing
      in if cnt < bestCount
         then (if cnt \<le> 1 then (candidate, n')
               else densityAttempts rnd camX camY viewW viewH existing k candidate cnt n')
         else densityAttempts rnd camX camY viewW viewH existing k bestPos bestCount n')"

definition getSpawnPositionWithDensityCheck ::
  "(nat \<Rightarrow> real) \<Rightarrow> nat \<Rightarrow> real \<Rightarrow> real \<Rightarrow> real \<Rightarrow> real \<Rightarrow> Enemy list \<Rightarrow> (real \<times> real) \<times> nat" where
  "getSpawnPositionWithDensityCheck rnd n camX camY viewW viewH existing =
     (let bestPos = fst (getSpawnPosition rnd n camX camY viewW viewH);
          n' = snd (getSpawnPosition rnd n camX camY viewW viewH);
          bestCount = countNearby (fst bestPos) (snd bestPos) existing
      in if bestCount \<le> 1 then (bestPos, n')
         else densityAttempts rnd camX camY viewW viewH existing 2 bestPos bestCount n')"

text \<open>
  The regular spawn loop of \<open>update\<close>, by the number of iterations left: a type draw, a
  placement, a new enemy appended.
\<close>

fun spawnRegular ::
  "BalanceConfig \<Rightarrow> (nat \<Rightarrow> real) \<Rightarrow> Spawner \<Rightarrow> real \<Rightarrow> real \<Rightarrow> real \<Rightarrow> real \<Rightarrow> Enemy list
     \<Rightarrow> nat \<Rightarrow> nat \<Rightarrow> Enemy list \<times> nat" where
  "spawnRegular bal rnd sp camX camY viewW viewH existing 0 n = ([], n)"
| "spawnRegular bal rnd sp camX camY viewW viewH existing (Suc k) n =
     (let ty = chooseEnemyType bal sp (rnd n);
          pos = fst (getSpawnPositionWithDensityCheck rnd (n + 1) camX camY viewW viewH existing);
          n' = snd (getSpawnPositionWithDensityCheck rnd (n + 1) camX camY viewW viewH existing);
          enemy = newEnemy (fst pos) (snd pos) ty (getDifficultyScale sp) bal
      in (enemy # fst (spawnRegular bal rnd sp camX camY viewW viewH existing k n'),
          snd (spawnRegular bal rnd sp camX camY viewW viewH existing k n')))"

text \<open>
  The boss gate of \<open>update\<close>. For whole numbers, JavaScript's \<open>a % b === 0\<close> holds exactly
  when \<open>b\<close> is not zero and divides \<open>a\<close> (\<open>a % 0\<close> is NaN).
\<close>

definition bossDue :: "BalanceConfig \<Rightarrow> Spawner \<Rightarrow> bool" where
  "bossDue bal sp =
     (let dangerLevel = getDangerLevel bal sp
      in dangerLevel \<ge> bossInterval bal
         \<and> (bossInterval bal \<noteq> 0 \<and> dangerLevel mod bossInterval bal = 0)
         \<and> s_lastBossDangerLevel sp < dangerLevel)"

text \<open>
  \<open>Spawner.update\<close>: the spawner after the call, the returned batch, and the random
  counter. The loop bound \<open>count\<close> (here \<open>cnt\<close>) is a whole number, so the loop runs that many times
  (not at all when it is not positive).
\<close>

definition update ::
  "BalanceConfig \<Rightarrow> (nat \<Rightarrow> real) \<Rightarrow> Spawner \<Rightarrow> nat \<Rightarrow> real \<Rightarrow> real \<Rightarrow> real \<Rightarrow> real \<Rightarrow> real
     \<Rightarrow> int \<Rightarrow> Enemy list \<Rightarrow> Spawner \<times> Enemy list \<times> nat" where
  "update bal rnd sp n dt camX camY viewWidth viewHeight currentCount existingEnemies =
     (let sp1 = sp\<lparr> s_elapsedTime := s_elapsedTime sp + dt, s_spawnTimer := s_spawnTimer sp - dt \<rparr>;
          boss = bossDue bal sp1;
          sp2 = (if boss then sp1\<lparr> s_lastBossDangerLevel := getDangerLevel bal sp1 \<rparr> else sp1);
          bossPos = fst (getSpawnPosition rnd n camX camY viewWidth viewHeight);
          spawned = (if boss
                     then [newEnemy (fst bossPos) (snd bossPos) Boss (getDifficultyScale sp2) bal]
                     else []);
          n1 = (if boss then snd (getSpawnPosition rnd n camX camY viewWidth viewHeight) else n)
      in if s_spawnTimer sp2 \<le> 0
         then (let sp3 = sp2\<lparr> s_spawnTimer := getSpawnInterval bal sp2 \<rparr>;
                   headroom = maxEnemies bal - currentCount - int (length spawned)
               in if headroom \<le> 0 then (sp3, spawned, n1)
                  else (let cnt = min headroom
                                      (min (maxSpawnPerTick bal)
                                           (1 + \<lfloor>s_elapsedTime sp3 / spawnCountDivisor bal\<rfloor>));
                            regular = spawnRegular bal rnd sp3 camX camY viewWidth viewHeight
                                        existingEnemies (nat cnt) n1
                        in (sp3, spawned @ fst regular, snd regular)))
         else (sp2, spawned, n1))"

text \<open>
  A run of \<open>update\<close> calls. Each call's arguments are \<open>dt\<close>, the camera centre, the view
  size, \<open>currentCount\<close> and the existing enemies. The log records, per call, the danger
  level at that call and the returned batch.
\<close>

type_synonym UpdateArgs = "real \<times> real \<times> real \<times> real \<times> real \<times> int \<times> Enemy list"

fun runUpdates ::
  "BalanceConfig \<Rightarrow> (nat \<Rightarrow> real) \<Rightarrow> Spawner \<Rightarrow> nat \<Rightarrow> UpdateArgs list \<Rightarrow> (int \<times> Enemy list) list" where
  "runUpdates bal rnd sp n [] = []"
| "runUpdates bal rnd sp n ((dt, camX, camY, vw, vh, cur, existing) # rest) =
     (let r = update bal rnd sp n dt camX camY vw vh cur existing
      in (getDangerLevel bal (fst r), fst (snd r)) # runUpdates bal rnd (fst r) (snd (snd r)) rest)"

definition bossCount :: "Enemy list \<Rightarrow> nat" where
  "bossCount batch = length (filter (\<lambda>e. e_type e = Boss) batch)"

definition regularCount :: "Enemy list \<Rightarrow> nat" where
  "regularCount batch = length (filter (\<lambda>e. e_type e \<noteq> Boss) batch)"

text \<open>The first two assignments of \<open>update\<close>: the clock advances, the spawn timer runs down.\<close>

definition advance :: "real \<Rightarrow> Spawner \<Rightarrow> Spawner" where
  "advance dt sp = sp\<lparr> s_elapsedTime := s_elapsedTime sp + dt, s_spawnTimer := s_spawnTimer sp - dt \<rparr>"

text \<open>The overlap tests of checks 1, 4 and 5, named for the statements about them.\<close>

definition bulletOverlaps :: "Bullet \<Rightarrow> Enemy \<Rightarrow> bool" where
  "bulletOverlaps b e =
     circlesOverlap (b_x b) (b_y b) (b_radius b) (e_x e) (e_y e) (e_radius e)"

definition explosionReaches :: "Player \<Rightarrow> Enemy \<Rightarrow> bool" where
  "explosionReaches pl e =
     circlesOverlap (p_x pl) (p_y pl) (p_radius pl) (e_x e) (e_y e) (e_explodeRadius e)"

definition collects :: "Player \<Rightarrow> Pickup \<Rightarrow> bool" where
  "collects pl k =
     (k_alive k \<and> circlesOverlap (p_x pl) (p_y pl) (p_radius pl + 5) (k_x k) (k_y k) (k_radius k))"

text \<open>What check 5 reads from the state left by checks 1 to 4.\<close>

definition pickupFrame :: "CollisionState \<Rightarrow> CollisionState \<Rightarrow> bool" where
  "pickupFrame s s' =
     (p_x (c_player s') = p_x (c_player s) \<and> p_y (c_player s') = p_y (c_player s)
      \<and> p_radius (c_player s') = p_radius (c_player s)
      \<and> r_xpGained (c_result s') = r_xpGained (c_result s)
      \<and> r_healthGained (c_result s') = r_healthGained (c_result s))"

text \<open>
  A tick on Normal difficulty used in the examples below: the player stands at the arena
  centre, inside the invulnerability window that a dash has just opened; an Exploder is
  30 pixels away; a player bullet of damage 2 overlaps the Exploder.
\<close>

definition dashingPlayer :: Player where
  "dashingPlayer = (reset NORMAL 1500 1000)\<lparr> p_invulnTimer := 1/4, p_isInvuln := True \<rparr>"

definition nearExploder :: Enemy where
  "nearExploder = newEnemy 1530 1000 Exploder 0 NORMAL"

definition killingBullet :: Bullet where
  "killingBullet = newBullet 1520 1000 500 0 4 2 0 False"

text \<open>Check 1's test on a candidate: the enemy is alive and its circle overlaps the bullet's.\<close>

definition bulletHits :: "Bullet \<Rightarrow> CollisionState \<Rightarrow> nat \<Rightarrow> bool" where
  "bulletHits b s i = (e_alive (c_enemies s ! i) \<and> bulletOverlaps b (c_enemies s ! i))"

text \<open>
  A bullet with one pierce left, overlapping three Basic enemies that stand on the same
  spot (Normal difficulty, 3 HP each).
\<close>

definition piercingBullet :: Bullet where
  "piercingBullet = newBullet 1520 1000 500 0 4 1 1 False"

definition threeBasics :: CollisionState where
  "threeBasics = \<lparr> c_player = reset NORMAL 1500 1000,
     c_enemies = [newEnemy 1530 1000 Basic 0 NORMAL, newEnemy 1530 1000 Basic 0 NORMAL,
                  newEnemy 1530 1000 Basic 0 NORMAL],
     c_result = resetResult \<rparr>"

text \<open>The cell index that \<open>insert\<close> computes for the enemy with reference \<open>i\<close>.\<close>

definition cellKeyOf :: "nat SpatialGrid \<Rightarrow> Enemy list \<Rightarrow> nat \<Rightarrow> int" where
  "cellKeyOf g enemies i =
     getKey g (max 0 (min (g_cols g - 1) \<lfloor>e_x (enemies ! i) / g_cellSize g\<rfloor>))
              (max 0 (min (g_rows g - 1) \<lfloor>e_y (enemies ! i) / g_cellSize g\<rfloor>))"

text \<open>
  What the grid holds while it is being built from an enemy array: every cell lists
  distinct references into the array, each in the cell that \<open>insert\<close> computes for it.
\<close>

definition gridHolds :: "nat SpatialGrid \<Rightarrow> Enemy list \<Rightarrow> bool" where
  "gridHolds g enemies =
     (gridShape g
      \<and> (\<forall>k<length (g_cells g).
            distinct (g_cells g ! k)
            \<and> (\<forall>i\<in>set (g_cells g ! k). i < length enemies \<and> cellKeyOf g enemies i = int k)))"

text \<open>
  The life of a player bullet, tick by tick: \<open>Game.updatePlaying\<close> calls \<open>Bullet.update\<close>, and
  \<open>checkAll\<close> then runs check 1 with the grid it has built and the state that the bullets
  before this one have left. \<open>Collided g s\<close> is that second step: what the loop over the
  player bullets does to this bullet.
\<close>

datatype BulletEvent = Moved real | Collided "nat SpatialGrid" CollisionState

fun applyBulletEvent :: "Bullet \<Rightarrow> BulletEvent \<Rightarrow> Bullet" where
  "applyBulletEvent b (Moved dt) = bulletUpdate dt b"
| "applyBulletEvent b (Collided g s) =
     (case checkPlayerBullets g [b] s of
        Some (b' # rest, s') \<Rightarrow> b'
      | _ \<Rightarrow> b)"

definition bulletLife :: "Bullet \<Rightarrow> BulletEvent list \<Rightarrow> Bullet" where
  "bulletLife b evs = foldl applyBulletEvent b evs"

text \<open>
  A collision step of a real tick: the grid holds references into the enemy array of the
  state, each in the cell of its position.
\<close>

fun validEvent :: "BulletEvent \<Rightarrow> bool" where
  "validEvent (Moved dt) = True"
| "validEvent (Collided g s) = gridHolds g (c_enemies s)"

text \<open>
  The two ways a bullet ends. A move ends it when the new position is outside the arena
  by more than the buffer. A collision step ends it when it hits an enemy with no pierce
  left: the candidates that are alive and overlap it number more than \<open>pierceLeft\<close>, so
  that the hit after the last pierce is spent takes place.
\<close>

fun killsBullet :: "Bullet \<Rightarrow> BulletEvent \<Rightarrow> bool" where
  "killsBullet b (Moved dt) = outOfBounds (b_x b + b_vx b * dt) (b_y b + b_vy b * dt)"
| "killsBullet b (Collided g s) =
     (case queryCircle g (b_x b) (b_y b) (b_radius b + 50) of
        None \<Rightarrow> False
      | Some nearby \<Rightarrow> nat (b_pierceLeft b) < length (filter (bulletHits b s) nearby))"

text \<open>The grid that \<open>checkAll\<close> builds for the three enemies above: all in cell 220.\<close>

definition threeGrid :: "nat SpatialGrid" where
  "threeGrid = enemyGrid\<lparr> g_cells := (replicate 468 [])[220 := [0, 1, 2]] \<rparr>"

definition spentBullet :: Bullet where
  "spentBullet = piercingBullet\<lparr> b_alive := False \<rparr>"

section \<open>Player: damage, healing, levelling\<close>

lemma runCalls_Nil: "runCalls bal [] p = p"
  by (simp add: runCalls_def)

lemma runCalls_snoc: "runCalls bal (cs @ [c]) p = applyCall bal (runCalls bal cs p) c"
  by (simp add: runCalls_def)

text \<open>
  C4. A damage application while the invulnerability window is active changes nothing
  (health, invulnerability timer and flag, alive flag, and every other field) and
  returns false.
\<close>

theorem takeDamage_invuln_noop:
  "p_isInvuln p \<Longrightarrow> takeDamage bal amount p = (p, False)"
  by (simp add: takeDamage_def)

theorem takeDamage_invuln_noop_witness:
  "takeDamage NORMAL 3 ((reset NORMAL 1500 1000)\<lparr> p_invulnTimer := 1/4, p_isInvuln := True \<rparr>)
     = ((reset NORMAL 1500 1000)\<lparr> p_invulnTimer := 1/4, p_isInvuln := True \<rparr>, False)"
  using takeDamage_invuln_noop
    [of "(reset NORMAL 1500 1000)\<lparr> p_invulnTimer := 1/4, p_isInvuln := True \<rparr>" NORMAL 3]
  by simp

text \<open>
  C5. If the experience meets the threshold \<open>level * xpPerLevelMult + xpPerLevelBase\<close>,
  one call of \<open>checkLevelUp\<close> subtracts exactly that threshold, raises the level by
  exactly one and returns true, whatever surplus remains; otherwise the player is
  unchanged and the call returns false.
\<close>

theorem checkLevelUp_single_step:
  "(p_xp p \<ge> of_int (p_level p) * xpPerLevelMult bal + xpPerLevelBase bal \<longrightarrow>
      checkLevelUp bal p =
        (p\<lparr> p_xp := p_xp p - (of_int (p_level p) * xpPerLevelMult bal + xpPerLevelBase bal),
            p_level := p_level p + 1 \<rparr>, True))
   \<and> (p_xp p < of_int (p_level p) * xpPerLevelMult bal + xpPerLevelBase bal \<longrightarrow>
      checkLevelUp bal p = (p, False))"
  by (simp add: checkLevelUp_def xpToNextLevel_def Let_def)

text \<open>
  On Normal a level-1 player needs 13 experience; with 100 the surplus 87 still meets
  the level-2 threshold 21, and the call nevertheless stops at level 2.
\<close>

theorem checkLevelUp_single_step_witness:
  "checkLevelUp NORMAL ((reset NORMAL 1500 1000)\<lparr> p_xp := 100 \<rparr>)
     = ((reset NORMAL 1500 1000)\<lparr> p_xp := 87, p_level := 2 \<rparr>, True)
   \<and> xpToNextLevel NORMAL ((reset NORMAL 1500 1000)\<lparr> p_xp := 87, p_level := 2 \<rparr>) = 21
   \<and> checkLevelUp NORMAL ((reset NORMAL 1500 1000)\<lparr> p_xp := 12 \<rparr>)
     = ((reset NORMAL 1500 1000)\<lparr> p_xp := 12 \<rparr>, False)"
  using checkLevelUp_single_step [of "(reset NORMAL 1500 1000)\<lparr> p_xp := 100 \<rparr>" NORMAL]
    checkLevelUp_single_step [of "(reset NORMAL 1500 1000)\<lparr> p_xp := 12 \<rparr>" NORMAL]
  by (simp add: reset_def NORMAL_def xpToNextLevel_def)

lemma applyCall_health_step:
  assumes "0 < playerMaxHealth bal" and "validCall c"
    and "0 \<le> p_health p" and "p_health p \<le> p_maxHealth p"
    and "p_maxHealth p = playerMaxHealth bal"
    and "p_alive p \<longrightarrow> 0 < p_health p"
  shows "0 \<le> p_health (applyCall bal p c)"
    and "p_health (applyCall bal p c) \<le> p_maxHealth (applyCall bal p c)"
    and "p_maxHealth (applyCall bal p c) = playerMaxHealth bal"
    and "p_alive (applyCall bal p c) \<longleftrightarrow> p_alive p \<and> 0 < p_health (applyCall bal p c)"
  using assms
  by (cases c; auto simp: takeDamage_def heal_def invulnCountdown_def Let_def)+

lemma applyCall_dead_stays_dead: "\<not> p_alive p \<Longrightarrow> \<not> p_alive (applyCall bal p c)"
  by (cases c) (auto simp: takeDamage_def heal_def invulnCountdown_def Let_def)

lemma runCalls_dead_stays_dead: "\<not> p_alive p \<Longrightarrow> \<not> p_alive (runCalls bal cs p)"
  by (induction cs arbitrary: p) (simp_all add: runCalls_def applyCall_dead_stays_dead)

lemma applyCall_death_step:
  assumes "validCall c" and "0 < p_health p" and "p_alive p" and "\<not> p_alive (applyCall bal p c)"
  shows "\<exists>a. c = TakeDamage a \<and> takeDamage bal a p = (applyCall bal p c, True)
           \<and> p_health (applyCall bal p c) = 0"
  using assms
  by (cases c) (auto simp: takeDamage_def heal_def invulnCountdown_def Let_def split: if_splits)

lemma runCalls_health_inv:
  assumes "0 < playerMaxHealth bal" and "\<forall>c\<in>set cs. validCall c"
  shows "0 \<le> p_health (runCalls bal cs (reset bal x y))
       \<and> p_health (runCalls bal cs (reset bal x y)) \<le> p_maxHealth (runCalls bal cs (reset bal x y))
       \<and> p_maxHealth (runCalls bal cs (reset bal x y)) = playerMaxHealth bal
       \<and> (p_alive (runCalls bal cs (reset bal x y)) \<longleftrightarrow>
            (\<forall>k\<le>length cs. 0 < p_health (runCalls bal (take k cs) (reset bal x y))))"
  using assms(2)
proof (induction cs rule: rev_induct)
  case Nil
  then show ?case using assms(1) by (simp add: runCalls_Nil reset_def)
next
  case (snoc c cs)
  let ?p = "runCalls bal cs (reset bal x y)"
  have vc: "validCall c" and vcs: "\<forall>c\<in>set cs. validCall c" using snoc.prems by auto
  note ih = snoc.IH [OF vcs]
  have al: "p_alive ?p \<longrightarrow> 0 < p_health ?p" using ih by auto
  note st = applyCall_health_step [OF assms(1) vc, of ?p]
  have h1: "0 \<le> p_health ?p" and h2: "p_health ?p \<le> p_maxHealth ?p"
    and h3: "p_maxHealth ?p = playerMaxHealth bal" using ih by auto
  have pre: "(\<forall>k\<le>length (cs @ [c]). 0 < p_health (runCalls bal (take k (cs @ [c])) (reset bal x y)))
      \<longleftrightarrow> (\<forall>k\<le>length cs. 0 < p_health (runCalls bal (take k cs) (reset bal x y)))
          \<and> 0 < p_health (runCalls bal (cs @ [c]) (reset bal x y))"
    (is "?L \<longleftrightarrow> ?A \<and> ?B")
  proof
    assume l: ?L
    have "?A"
    proof (intro allI impI)
      fix k assume "k \<le> length cs"
      then show "0 < p_health (runCalls bal (take k cs) (reset bal x y))"
        using l [rule_format, of k] by simp
    qed
    moreover have ?B using l [rule_format, of "length (cs @ [c])"] by simp
    ultimately show "?A \<and> ?B" by simp
  next
    assume ab: "?A \<and> ?B"
    show ?L
    proof (intro allI impI)
      fix k assume k: "k \<le> length (cs @ [c])"
      show "0 < p_health (runCalls bal (take k (cs @ [c])) (reset bal x y))"
      proof (cases "k \<le> length cs")
        case True
        then show ?thesis using ab by simp
      next
        case False
        then have "k = length (cs @ [c])" using k by simp
        then show ?thesis using ab by simp
      qed
    qed
  qed
  show ?case
    unfolding pre runCalls_snoc
    using st(1) [OF h1 h2 h3 al] st(2) [OF h1 h2 h3 al] st(3) [OF h1 h2 h3 al]
      st(4) [OF h1 h2 h3 al] ih
    by auto
qed

text \<open>
  C3. From a freshly reset player, after any sequence of \<open>takeDamage\<close> and \<open>heal\<close>
  calls (with invulnerability countdowns in between): health lies in \<open>[0, maxHealth]\<close>;
  the player is alive exactly as long as health has not been zero after any call so far;
  the call at which alive turns false is a \<open>takeDamage\<close> that returns true and leaves
  health at zero; and once false, alive stays false whatever calls follow.
\<close>

theorem health_invariant:
  assumes "0 < playerMaxHealth bal" and "\<forall>c\<in>set cs. validCall c"
  shows "0 \<le> p_health (runCalls bal cs (reset bal x y))
       \<and> p_health (runCalls bal cs (reset bal x y)) \<le> p_maxHealth (runCalls bal cs (reset bal x y))
       \<and> (p_alive (runCalls bal cs (reset bal x y)) \<longleftrightarrow>
            (\<forall>k\<le>length cs. 0 < p_health (runCalls bal (take k cs) (reset bal x y))))
       \<and> (\<forall>c. validCall c \<and> p_alive (runCalls bal cs (reset bal x y))
               \<and> \<not> p_alive (runCalls bal (cs @ [c]) (reset bal x y)) \<longrightarrow>
             (\<exists>a. c = TakeDamage a
                \<and> takeDamage bal a (runCalls bal cs (reset bal x y))
                    = (runCalls bal (cs @ [c]) (reset bal x y), True)
                \<and> p_health (runCalls bal (cs @ [c]) (reset bal x y)) = 0))
       \<and> (\<forall>cs'. \<not> p_alive (runCalls bal cs (reset bal x y)) \<longrightarrow>
             \<not> p_alive (runCalls bal (cs @ cs') (reset bal x y)))"
proof -
  let ?p = "runCalls bal cs (reset bal x y)"
  note inv = runCalls_health_inv [OF assms, of x y]
  have pos: "p_alive ?p \<longrightarrow> 0 < p_health ?p" using inv by auto
  have death: "\<forall>c. validCall c \<and> p_alive ?p \<and> \<not> p_alive (runCalls bal (cs @ [c]) (reset bal x y)) \<longrightarrow>
             (\<exists>a. c = TakeDamage a
                \<and> takeDamage bal a ?p = (runCalls bal (cs @ [c]) (reset bal x y), True)
                \<and> p_health (runCalls bal (cs @ [c]) (reset bal x y)) = 0)"
    unfolding runCalls_snoc using applyCall_death_step pos by blast
  have stay: "\<forall>cs'. \<not> p_alive ?p \<longrightarrow> \<not> p_alive (runCalls bal (cs @ cs') (reset bal x y))"
    using runCalls_dead_stays_dead [of ?p bal] by (simp add: runCalls_def)
  show ?thesis using inv death stay by blast
qed

theorem health_invariant_witness:
  "0 < playerMaxHealth NORMAL
   \<and> list_all validCall [TakeDamage 2, Heal 1, Countdown 2, TakeDamage 7, Heal 1]
   \<and> p_health (runCalls NORMAL [TakeDamage 2, Heal 1, Countdown 2, TakeDamage 7, Heal 1]
         (reset NORMAL 1500 1000)) = 1
   \<and> p_maxHealth (runCalls NORMAL [TakeDamage 2, Heal 1, Countdown 2, TakeDamage 7, Heal 1]
         (reset NORMAL 1500 1000)) = 5
   \<and> \<not> p_alive (runCalls NORMAL [TakeDamage 2, Heal 1, Countdown 2, TakeDamage 7, Heal 1]
         (reset NORMAL 1500 1000))
   \<and> p_alive (runCalls NORMAL [TakeDamage 2, Heal 1, Countdown 2] (reset NORMAL 1500 1000))
   \<and> p_health (runCalls NORMAL [TakeDamage 2, Heal 1, Countdown 2, TakeDamage 7]
         (reset NORMAL 1500 1000)) = 0"
  using health_invariant [of NORMAL "[TakeDamage 2, Heal 1, Countdown 2, TakeDamage 7, Heal 1]" 1500 1000]
  by (simp add: runCalls_def takeDamage_def heal_def invulnCountdown_def reset_def NORMAL_def)

section \<open>Spatial grid: every access stays inside the cell array\<close>

lemma newSpatialGrid_shape:
  assumes "0 < cellSize" and "0 \<le> width" and "0 \<le> height"
  shows "gridShape (newSpatialGrid width height cellSize)"
proof -
  have "0 \<le> width / cellSize" and "0 \<le> height / cellSize" using assms by simp_all
  then have w: "0 \<le> \<lceil>width / cellSize\<rceil>" and h: "0 \<le> \<lceil>height / cellSize\<rceil>"
    by (simp_all add: zero_le_ceiling order_less_le_trans [of "-1" 0])
  have "0 \<le> (\<lceil>width / cellSize\<rceil> + 1) * (\<lceil>height / cellSize\<rceil> + 1)"
    using w h by simp
  then show ?thesis using w h
    by (simp add: gridShape_def newSpatialGrid_def Let_def)
qed

lemma key_in_range:
  assumes "gridShape g" and "0 \<le> c" and "c \<le> g_cols g - 1" and "0 \<le> r" and "r \<le> g_rows g - 1"
  shows "0 \<le> getKey g c r \<and> getKey g c r < int (length (g_cells g))"
proof -
  have cols: "1 \<le> g_cols g" and len: "int (length (g_cells g)) = g_cols g * g_rows g"
    using assms(1) by (simp_all add: gridShape_def)
  have "r * g_cols g \<le> (g_rows g - 1) * g_cols g"
    using assms(5) cols by (intro mult_right_mono) simp_all
  then have "r * g_cols g + c \<le> g_rows g * g_cols g - 1"
    using assms(3) by (simp add: algebra_simps)
  moreover have "0 \<le> r * g_cols g" using assms(4) cols by simp
  ultimately show ?thesis using assms(2) len by (simp add: getKey_def mult.commute)
qed

lemma clamp_col_range:
  assumes "gridShape g"
  shows "0 \<le> max 0 (min (g_cols g - 1) v) \<and> max 0 (min (g_cols g - 1) v) \<le> g_cols g - 1"
  using assms by (auto simp: gridShape_def)

lemma clamp_row_range:
  assumes "gridShape g"
  shows "0 \<le> max 0 (min (g_rows g - 1) v) \<and> max 0 (min (g_rows g - 1) v) \<le> g_rows g - 1"
  using assms by (auto simp: gridShape_def)

lemma insert_grid_total:
  assumes "gridShape g"
  shows "\<exists>g'. insert_grid g ex ey entity = Some g' \<and> gridShape g'
            \<and> length (g_cells g') = length (g_cells g)"
proof -
  let ?col = "max 0 (min (g_cols g - 1) \<lfloor>ex / g_cellSize g\<rfloor>)"
  let ?row = "max 0 (min (g_rows g - 1) \<lfloor>ey / g_cellSize g\<rfloor>)"
  have "0 \<le> getKey g ?col ?row \<and> getKey g ?col ?row < int (length (g_cells g))"
    using key_in_range [OF assms] clamp_col_range [OF assms] clamp_row_range [OF assms] by blast
  then show ?thesis using assms
    by (simp add: insert_grid_def Let_def gridShape_def)
qed

lemma clear_total:
  assumes "gridShape g"
  shows "\<exists>g'. clear g = Some g' \<and> gridShape g'"
proof -
  have "nat (g_cols g * g_rows g) = length (g_cells g)"
    using assms by (simp add: gridShape_def nat_eq_iff)
  then show ?thesis using assms by (simp add: clear_def gridShape_def)
qed

lemma insertEnemies_total:
  "gridShape g \<Longrightarrow> \<exists>g'. insertEnemies g enemies is = Some g' \<and> gridShape g'"
proof (induction "is" arbitrary: g)
  case Nil
  then show ?case by simp
next
  case (Cons i "is")
  show ?case
  proof (cases "e_alive (enemies ! i)")
    case True
    obtain g1 where g1: "insert_grid g (e_x (enemies ! i)) (e_y (enemies ! i)) i = Some g1"
      and s1: "gridShape g1"
      using insert_grid_total [OF Cons.prems] by blast
    show ?thesis using True g1 Cons.IH [OF s1] by simp
  next
    case False
    then show ?thesis using Cons.IH [OF Cons.prems] by simp
  qed
qed

lemma buildGrid_total:
  assumes "gridShape g"
  shows "\<exists>g'. buildGrid g enemies = Some g' \<and> gridShape g'"
proof -
  obtain g0 where "clear g = Some g0" and "gridShape g0" using clear_total [OF assms] by blast
  then show ?thesis using insertEnemies_total [of g0 enemies "[0..<length enemies]"]
    by (simp add: buildGrid_def)
qed

lemma queryRow_total:
  assumes "gridShape g" and "0 \<le> r" and "r \<le> g_rows g - 1"
  shows "\<forall>c\<in>set cs. 0 \<le> c \<and> c \<le> g_cols g - 1 \<Longrightarrow> \<exists>xs. queryRow g r cs acc = Some xs"
proof (induction cs arbitrary: acc)
  case Nil
  then show ?case by simp
next
  case (Cons c cs)
  have "0 \<le> getKey g c r \<and> getKey g c r < int (length (g_cells g))"
    using key_in_range [OF assms(1) _ _ assms(2,3), of c] Cons.prems by simp
  then show ?case using Cons by (simp add: cellAt_def)
qed

lemma queryRows_total:
  assumes "gridShape g" and "\<forall>c\<in>set cs. 0 \<le> c \<and> c \<le> g_cols g - 1"
  shows "\<forall>r\<in>set rs. 0 \<le> r \<and> r \<le> g_rows g - 1 \<Longrightarrow> \<exists>xs. queryRows g rs cs acc = Some xs"
proof (induction rs arbitrary: acc)
  case Nil
  then show ?case by simp
next
  case (Cons r rs)
  obtain ys where "queryRow g r cs acc = Some ys"
    using queryRow_total [OF assms(1) _ _ assms(2), of r acc] Cons.prems by auto
  then show ?case using Cons by simp
qed

lemma queryCircle_total:
  assumes "gridShape g"
  shows "\<exists>xs. queryCircle g x y radius = Some xs"
  unfolding queryCircle_def Let_def
  by (rule queryRows_total [OF assms]) auto

lemma enemyGrid_shape: "gridShape enemyGrid"
  unfolding enemyGrid_def
  by (rule newSpatialGrid_shape) (simp_all add: ARENA_WIDTH_def ARENA_HEIGHT_def SPATIAL_CELL_SIZE_def)

lemma enemyGrid_dims: "g_cols enemyGrid = 26 \<and> g_rows enemyGrid = 18 \<and> length (g_cells enemyGrid) = 468"
  by (simp add: enemyGrid_def newSpatialGrid_def Let_def ARENA_WIDTH_def ARENA_HEIGHT_def SPATIAL_CELL_SIZE_def)

lemma constructed_dims_shape:
  fixes g :: "'a SpatialGrid"
  assumes "0 < cellSize" and "0 \<le> width" and "0 \<le> height"
    and "g_cols g = g_cols (newSpatialGrid width height cellSize :: 'a SpatialGrid)"
    and "g_rows g = g_rows (newSpatialGrid width height cellSize :: 'a SpatialGrid)"
    and "g_cellCount g = g_cellCount (newSpatialGrid width height cellSize :: 'a SpatialGrid)"
    and "length (g_cells g) = length (g_cells (newSpatialGrid width height cellSize :: 'a SpatialGrid))"
  shows "gridShape g"
  using newSpatialGrid_shape [OF assms(1,2,3), where ?'a = 'a] assms(4,5,6,7)
  by (simp add: gridShape_def)

text \<open>
  C9. For a grid with the dimensions its constructor computed (from a non-negative
  extent and a positive cell size, as for the 3000 x 2000 arena with 120-pixel cells),
  and for every entity position, inside the arena, on its edge, beyond it or negative:
  the column used by \<open>insert\<close> lies in \<open>[0, cols - 1]\<close>, the row in \<open>[0, rows - 1]\<close>, the
  cell index \<open>row * cols + col\<close> addresses an existing cell, and \<open>insert\<close> succeeds and
  leaves the dimensions unchanged.
\<close>

theorem insert_in_bounds:
  fixes g :: "'a SpatialGrid"
  assumes "0 < cellSize" and "0 \<le> width" and "0 \<le> height"
    and "g_cols g = g_cols (newSpatialGrid width height cellSize :: 'a SpatialGrid)"
    and "g_rows g = g_rows (newSpatialGrid width height cellSize :: 'a SpatialGrid)"
    and "g_cellCount g = g_cellCount (newSpatialGrid width height cellSize :: 'a SpatialGrid)"
    and "length (g_cells g) = length (g_cells (newSpatialGrid width height cellSize :: 'a SpatialGrid))"
  shows "0 \<le> max 0 (min (g_cols g - 1) \<lfloor>ex / g_cellSize g\<rfloor>)
       \<and> max 0 (min (g_cols g - 1) \<lfloor>ex / g_cellSize g\<rfloor>) \<le> g_cols g - 1
       \<and> 0 \<le> max 0 (min (g_rows g - 1) \<lfloor>ey / g_cellSize g\<rfloor>)
       \<and> max 0 (min (g_rows g - 1) \<lfloor>ey / g_cellSize g\<rfloor>) \<le> g_rows g - 1
       \<and> 0 \<le> getKey g (max 0 (min (g_cols g - 1) \<lfloor>ex / g_cellSize g\<rfloor>))
                        (max 0 (min (g_rows g - 1) \<lfloor>ey / g_cellSize g\<rfloor>))
       \<and> getKey g (max 0 (min (g_cols g - 1) \<lfloor>ex / g_cellSize g\<rfloor>))
                    (max 0 (min (g_rows g - 1) \<lfloor>ey / g_cellSize g\<rfloor>))
           < int (length (g_cells g))
       \<and> (\<exists>g'. insert_grid g ex ey entity = Some g'
                \<and> g_cols g' = g_cols g \<and> g_rows g' = g_rows g
                \<and> g_cellCount g' = g_cellCount g
                \<and> length (g_cells g') = length (g_cells g))"
proof -
  have sh: "gridShape g" by (rule constructed_dims_shape [OF assms])
  note c = clamp_col_range [OF sh, of "\<lfloor>ex / g_cellSize g\<rfloor>"]
  note r = clamp_row_range [OF sh, of "\<lfloor>ey / g_cellSize g\<rfloor>"]
  have k: "0 \<le> getKey g (max 0 (min (g_cols g - 1) \<lfloor>ex / g_cellSize g\<rfloor>))
                        (max 0 (min (g_rows g - 1) \<lfloor>ey / g_cellSize g\<rfloor>))
       \<and> getKey g (max 0 (min (g_cols g - 1) \<lfloor>ex / g_cellSize g\<rfloor>))
                    (max 0 (min (g_rows g - 1) \<lfloor>ey / g_cellSize g\<rfloor>))
           < int (length (g_cells g))"
    using key_in_range [OF sh] c r by blast
  have "\<exists>g'. insert_grid g ex ey entity = Some g'
                \<and> g_cols g' = g_cols g \<and> g_rows g' = g_rows g
                \<and> g_cellCount g' = g_cellCount g
                \<and> length (g_cells g') = length (g_cells g)"
    using k by (simp add: insert_grid_def Let_def)
  then show ?thesis using c r k by blast
qed

theorem insert_in_bounds_witness:
  "0 < SPATIAL_CELL_SIZE \<and> 0 \<le> ARENA_WIDTH \<and> 0 \<le> ARENA_HEIGHT
   \<and> g_cols enemyGrid = 26 \<and> g_rows enemyGrid = 18 \<and> length (g_cells enemyGrid) = 468
   \<and> max 0 (min (g_cols enemyGrid - 1) \<lfloor>3000 / g_cellSize enemyGrid\<rfloor>) = 25
   \<and> max 0 (min (g_rows enemyGrid - 1) \<lfloor>2000 / g_cellSize enemyGrid\<rfloor>) = 16
   \<and> getKey enemyGrid 25 16 = 441
   \<and> insert_grid enemyGrid 3000 2000 (7::nat) \<noteq> None"
  using insert_in_bounds [of SPATIAL_CELL_SIZE ARENA_WIDTH ARENA_HEIGHT enemyGrid 3000 2000 7]
  by (auto simp add: enemyGrid_def newSpatialGrid_def Let_def getKey_def
        ARENA_WIDTH_def ARENA_HEIGHT_def SPATIAL_CELL_SIZE_def)

section \<open>Entity sweep: exactly the dead entities are removed\<close>

lemma swap_pop_mset:
  assumes "i < length arr"
  shows "mset (butlast (arr[i := arr ! (length arr - 1)])) = mset arr - {#arr ! i#}"
proof (cases "i = length arr - 1")
  case True
  have ne: "arr \<noteq> []" using assms by auto
  have "arr[i := arr ! (length arr - 1)] = arr" using True by simp
  moreover have "arr ! i = last arr" using True ne by (simp add: last_conv_nth)
  moreover have "mset arr = add_mset (last arr) (mset (butlast arr))"
    using ne by (metis append_butlast_last_id mset.simps(2) mset_append union_mset_add_mset_right add.right_neutral mset.simps(1))
  ultimately show ?thesis by simp
next
  case False
  let ?arr' = "arr[i := arr ! (length arr - 1)]"
  have ne: "?arr' \<noteq> []" using assms by auto
  have "arr \<noteq> []" using assms by auto
  then have lst: "last ?arr' = arr ! (length arr - 1)"
    using False by (simp add: last_list_update last_conv_nth)
  have "mset ?arr' = add_mset (last ?arr') (mset (butlast ?arr'))"
    using ne by (metis append_butlast_last_id mset.simps(2) mset_append union_mset_add_mset_right add.right_neutral mset.simps(1))
  moreover have "mset ?arr' = add_mset (arr ! (length arr - 1)) (mset arr - {#arr ! i#})"
    using assms by (simp add: mset_update)
  ultimately show ?thesis using lst by simp
qed

lemma removeLoop_correct:
  "n \<le> length arr \<Longrightarrow> \<forall>j. n \<le> j \<and> j < length arr \<longrightarrow> alive (arr ! j) \<Longrightarrow>
   \<exists>arr'. removeLoop alive n arr = Some arr' \<and> mset arr' = filter_mset alive (mset arr)"
proof (induction n arbitrary: arr)
  case 0
  then have "\<forall>x\<in>set arr. alive x" by (auto simp: in_set_conv_nth)
  then have "filter_mset alive (mset arr) = mset arr"
    by (simp add: filter_mset_eq_conv)
  then show ?case by simp
next
  case (Suc i)
  have i: "i < length arr" using Suc.prems(1) by simp
  show ?case
  proof (cases "alive (arr ! i)")
    case True
    have "\<forall>j. i \<le> j \<and> j < length arr \<longrightarrow> alive (arr ! j)"
      using Suc.prems(2) True by (metis Suc_leI le_neq_implies_less)
    then show ?thesis using Suc.IH [of arr] i True by simp
  next
    case False
    let ?arr2 = "butlast (arr[i := arr ! (length arr - 1)])"
    have len: "length ?arr2 = length arr - 1" by simp
    have le: "i \<le> length ?arr2" using i by simp
    have al: "\<forall>j. i \<le> j \<and> j < length ?arr2 \<longrightarrow> alive (?arr2 ! j)"
    proof (intro allI impI)
      fix j assume j: "i \<le> j \<and> j < length ?arr2"
      then have jl: "j < length arr - 1" by simp
      have "?arr2 ! j = (arr[i := arr ! (length arr - 1)]) ! j"
        using jl by (simp add: nth_butlast)
      also have "\<dots> = (if j = i then arr ! (length arr - 1) else arr ! j)"
        using jl i by (simp add: nth_list_update)
      finally have eq: "?arr2 ! j = (if j = i then arr ! (length arr - 1) else arr ! j)" .
      show "alive (?arr2 ! j)"
      proof (cases "j = i")
        case True
        then have "Suc i \<le> length arr - 1 \<and> length arr - 1 < length arr" using jl by linarith
        then show ?thesis using eq True Suc.prems(2) by simp
      next
        case False
        then have "Suc i \<le> j \<and> j < length arr" using j jl by linarith
        then show ?thesis using eq False Suc.prems(2) by simp
      qed
    qed
    obtain arr' where r: "removeLoop alive i ?arr2 = Some arr'"
      and m: "mset arr' = filter_mset alive (mset ?arr2)"
      using Suc.IH [OF le al] by blast
    have "filter_mset alive (mset ?arr2) = filter_mset alive (mset arr - {#arr ! i#})"
      using swap_pop_mset [OF i] by simp
    also have "\<dots> = filter_mset alive (mset arr)"
      using False by (simp add: filter_diff_mset)
    finally show ?thesis using r m i False by simp
  qed
qed

text \<open>
  C10. For every entity array, \<open>removeDeadEntities\<close> returns normally, and the array it
  leaves is, as a multiset, exactly the alive elements of the original array: no alive
  element is lost or duplicated and no dead element remains. The order may differ.
\<close>

theorem removeDeadEntities_keeps_alive:
  "\<exists>arr'. removeDeadEntities alive arr = Some arr'
         \<and> mset arr' = filter_mset alive (mset arr)"
  unfolding removeDeadEntities_def
  by (rule removeLoop_correct) auto

text \<open>
  Three bullets of which the first is dead: the last one is swapped into its place, so
  the survivors come out in the other order.
\<close>

theorem removeDeadEntities_keeps_alive_witness:
  "removeDeadEntities fst [(False, 1::nat), (True, 2), (True, 3)] = Some [(True, 3), (True, 2)]
   \<and> mset [(True, 3::nat), (True, 2)] = filter_mset fst (mset [(False, 1), (True, 2), (True, 3)])"
  using removeDeadEntities_keeps_alive [of fst "[(False, 1::nat), (True, 2), (True, 3)]"]
  by (simp add: removeDeadEntities_def numeral_3_eq_3)

section \<open>Spawner: boss milestones and the enemy cap\<close>

lemma newEnemy_type: "e_type (newEnemy x y ty d bal) = ty"
  by (simp add: newEnemy_def Let_def)

lemma chooseEnemyType_not_Boss: "chooseEnemyType bal sp roll \<noteq> Boss"
  by (simp add: chooseEnemyType_def Let_def)

lemma spawnRegular_length:
  "length (fst (spawnRegular bal rnd sp camX camY vw vh existing k n)) = k"
  by (induction k arbitrary: n) (simp_all add: Let_def)

lemma spawnRegular_no_boss:
  "filter (\<lambda>e. e_type e = Boss) (fst (spawnRegular bal rnd sp camX camY vw vh existing k n)) = []"
  by (induction k arbitrary: n) (simp_all add: Let_def newEnemy_type chooseEnemyType_not_Boss)

lemma spawnRegular_all_regular:
  "filter (\<lambda>e. e_type e \<noteq> Boss) (fst (spawnRegular bal rnd sp camX camY vw vh existing k n))
     = fst (spawnRegular bal rnd sp camX camY vw vh existing k n)"
  by (induction k arbitrary: n) (simp_all add: Let_def newEnemy_type chooseEnemyType_not_Boss)

lemma getDangerLevel_cong:
  "s_elapsedTime sp = s_elapsedTime sp' \<Longrightarrow> getDangerLevel bal sp = getDangerLevel bal sp'"
  by (simp add: getDangerLevel_def)

lemma update_elapsed:
  "s_elapsedTime (fst (update bal rnd sp n dt camX camY vw vh cur existing)) = s_elapsedTime sp + dt"
  by (simp add: update_def Let_def)

lemma update_dangerLevel:
  "getDangerLevel bal (fst (update bal rnd sp n dt camX camY vw vh cur existing))
     = getDangerLevel bal (advance dt sp)"
  by (rule getDangerLevel_cong) (simp add: update_elapsed advance_def)

lemma update_lastBoss:
  "s_lastBossDangerLevel (fst (update bal rnd sp n dt camX camY vw vh cur existing))
     = (if bossDue bal (advance dt sp) then getDangerLevel bal (advance dt sp)
        else s_lastBossDangerLevel sp)"
  by (simp add: update_def Let_def advance_def)

lemma update_bossCount:
  "bossCount (fst (snd (update bal rnd sp n dt camX camY vw vh cur existing)))
     = (if bossDue bal (advance dt sp) then 1 else 0)"
  by (simp add: update_def Let_def advance_def bossCount_def newEnemy_type spawnRegular_no_boss)

lemma update_regularCount:
  "regularCount (fst (snd (update bal rnd sp n dt camX camY vw vh cur existing)))
     = (if s_spawnTimer sp - dt \<le> 0
           \<and> 0 < maxEnemies bal - cur - (if bossDue bal (advance dt sp) then 1 else 0)
        then nat (min (maxEnemies bal - cur - (if bossDue bal (advance dt sp) then 1 else 0))
                   (min (maxSpawnPerTick bal)
                        (1 + \<lfloor>(s_elapsedTime sp + dt) / spawnCountDivisor bal\<rfloor>)))
        else 0)"
  by (simp add: update_def Let_def advance_def regularCount_def newEnemy_type
        spawnRegular_all_regular spawnRegular_length)

lemma bossDue_facts:
  assumes "bossDue bal sp"
  shows "bossInterval bal \<le> getDangerLevel bal sp" and "bossInterval bal \<noteq> 0"
    and "getDangerLevel bal sp mod bossInterval bal = 0"
    and "s_lastBossDangerLevel sp < getDangerLevel bal sp"
  using assms by (simp_all add: bossDue_def Let_def)

lemma advance_lastBoss: "s_lastBossDangerLevel (advance dt sp) = s_lastBossDangerLevel sp"
  by (simp add: advance_def)

lemma update_lastBoss_mono:
  "s_lastBossDangerLevel sp
     \<le> s_lastBossDangerLevel (fst (update bal rnd sp n dt camX camY vw vh cur existing))"
  using bossDue_facts(4) [of bal "advance dt sp"]
  by (auto simp add: update_lastBoss advance_lastBoss)

lemma runUpdates_length: "length (runUpdates bal rnd sp n args) = length args"
  by (induction args arbitrary: sp n) (auto simp: Let_def)

lemma runUpdates_boss_above_last:
  "k < length (runUpdates bal rnd sp n args) \<Longrightarrow>
   0 < bossCount (snd (runUpdates bal rnd sp n args ! k)) \<Longrightarrow>
   s_lastBossDangerLevel sp < fst (runUpdates bal rnd sp n args ! k)
   \<and> bossInterval bal \<le> fst (runUpdates bal rnd sp n args ! k)
   \<and> bossInterval bal \<noteq> 0
   \<and> fst (runUpdates bal rnd sp n args ! k) mod bossInterval bal = 0
   \<and> bossCount (snd (runUpdates bal rnd sp n args ! k)) = 1"
proof (induction args arbitrary: sp n k)
  case Nil
  then show ?case by simp
next
  case (Cons a args)
  obtain dt camX camY vw vh cur existing where a: "a = (dt, camX, camY, vw, vh, cur, existing)"
    by (cases a) auto
  let ?r = "update bal rnd sp n dt camX camY vw vh cur existing"
  show ?case
  proof (cases k)
    case 0
    have due: "bossDue bal (advance dt sp)"
      using Cons.prems(2) 0 a by (simp add: Let_def update_bossCount split: if_splits)
    show ?thesis
      using bossDue_facts [OF due] 0 a due
      by (simp add: Let_def update_dangerLevel update_bossCount advance_lastBoss)
  next
    case (Suc k')
    have k': "k' < length (runUpdates bal rnd (fst ?r) (snd (snd ?r)) args)"
      using Cons.prems(1) Suc a by (simp add: Let_def)
    have b: "0 < bossCount (snd (runUpdates bal rnd (fst ?r) (snd (snd ?r)) args ! k'))"
      using Cons.prems(2) Suc a by (simp add: Let_def)
    note ih = Cons.IH [OF k' b]
    have "s_lastBossDangerLevel sp \<le> s_lastBossDangerLevel (fst ?r)"
      by (rule update_lastBoss_mono)
    then show ?thesis using ih Suc a by (simp add: Let_def)
  qed
qed

lemma runUpdates_boss_levels_increase:
  "i < j \<Longrightarrow> j < length (runUpdates bal rnd sp n args) \<Longrightarrow>
   0 < bossCount (snd (runUpdates bal rnd sp n args ! i)) \<Longrightarrow>
   0 < bossCount (snd (runUpdates bal rnd sp n args ! j)) \<Longrightarrow>
   fst (runUpdates bal rnd sp n args ! i) < fst (runUpdates bal rnd sp n args ! j)"
proof (induction args arbitrary: sp n i j)
  case Nil
  then show ?case by simp
next
  case (Cons a args)
  obtain dt camX camY vw vh cur existing where a: "a = (dt, camX, camY, vw, vh, cur, existing)"
    by (cases a) auto
  let ?r = "update bal rnd sp n dt camX camY vw vh cur existing"
  obtain j' where j: "j = Suc j'" using Cons.prems(1) by (cases j) auto
  have j': "j' < length (runUpdates bal rnd (fst ?r) (snd (snd ?r)) args)"
    using Cons.prems(2) j a by (simp add: Let_def)
  have bj: "0 < bossCount (snd (runUpdates bal rnd (fst ?r) (snd (snd ?r)) args ! j'))"
    using Cons.prems(4) j a by (simp add: Let_def)
  show ?case
  proof (cases i)
    case 0
    have due: "bossDue bal (advance dt sp)"
      using Cons.prems(3) 0 a by (simp add: Let_def update_bossCount split: if_splits)
    have "s_lastBossDangerLevel (fst ?r) = getDangerLevel bal (advance dt sp)"
      using due by (simp add: update_lastBoss)
    then show ?thesis
      using runUpdates_boss_above_last [OF j' bj] 0 j a
      by (simp add: Let_def update_dangerLevel)
  next
    case (Suc i')
    have "i' < j'" using Cons.prems(1) Suc j by simp
    moreover have "0 < bossCount (snd (runUpdates bal rnd (fst ?r) (snd (snd ?r)) args ! i'))"
      using Cons.prems(3) Suc a by (simp add: Let_def)
    ultimately show ?thesis using Cons.IH [OF _ j' _ bj] Suc j a by (simp add: Let_def)
  qed
qed

text \<open>
  C6. Over any run of \<open>update\<close> calls after \<open>reset\<close> (whatever the time steps, so in
  particular for positive ones): a batch holds at most one Boss, and holds one only when
  the danger level of that call is at least \<open>bossInterval\<close> and an exact multiple of it;
  once a call has emitted a Boss, no later call at the same danger level emits one; the
  danger levels of successive Boss emissions strictly increase.
\<close>

theorem boss_once_per_danger_level:
  "(\<forall>k<length (runUpdates bal rnd (spawnerReset bal) n args).
      bossCount (snd (runUpdates bal rnd (spawnerReset bal) n args ! k)) \<le> 1
      \<and> (0 < bossCount (snd (runUpdates bal rnd (spawnerReset bal) n args ! k)) \<longrightarrow>
           bossInterval bal \<le> fst (runUpdates bal rnd (spawnerReset bal) n args ! k)
           \<and> bossInterval bal \<noteq> 0
           \<and> fst (runUpdates bal rnd (spawnerReset bal) n args ! k) mod bossInterval bal = 0))
   \<and> (\<forall>i j. i < j \<and> j < length (runUpdates bal rnd (spawnerReset bal) n args)
           \<and> 0 < bossCount (snd (runUpdates bal rnd (spawnerReset bal) n args ! i))
           \<and> fst (runUpdates bal rnd (spawnerReset bal) n args ! j)
               = fst (runUpdates bal rnd (spawnerReset bal) n args ! i) \<longrightarrow>
         bossCount (snd (runUpdates bal rnd (spawnerReset bal) n args ! j)) = 0)
   \<and> (\<forall>i j. i < j \<and> j < length (runUpdates bal rnd (spawnerReset bal) n args)
           \<and> 0 < bossCount (snd (runUpdates bal rnd (spawnerReset bal) n args ! i))
           \<and> 0 < bossCount (snd (runUpdates bal rnd (spawnerReset bal) n args ! j)) \<longrightarrow>
         fst (runUpdates bal rnd (spawnerReset bal) n args ! i)
           < fst (runUpdates bal rnd (spawnerReset bal) n args ! j))"
proof -
  let ?log = "runUpdates bal rnd (spawnerReset bal) n args"
  have one: "\<forall>k<length ?log. bossCount (snd (?log ! k)) \<le> 1
      \<and> (0 < bossCount (snd (?log ! k)) \<longrightarrow>
           bossInterval bal \<le> fst (?log ! k) \<and> bossInterval bal \<noteq> 0
           \<and> fst (?log ! k) mod bossInterval bal = 0)"
  proof (intro allI impI)
    fix k assume k: "k < length ?log"
    show "bossCount (snd (?log ! k)) \<le> 1
      \<and> (0 < bossCount (snd (?log ! k)) \<longrightarrow>
           bossInterval bal \<le> fst (?log ! k) \<and> bossInterval bal \<noteq> 0
           \<and> fst (?log ! k) mod bossInterval bal = 0)"
      using runUpdates_boss_above_last [OF k] by (cases "0 < bossCount (snd (?log ! k))") auto
  qed
  have inc: "\<forall>i j. i < j \<and> j < length ?log \<and> 0 < bossCount (snd (?log ! i))
           \<and> 0 < bossCount (snd (?log ! j)) \<longrightarrow> fst (?log ! i) < fst (?log ! j)"
    using runUpdates_boss_levels_increase by blast
  have same: "\<forall>i j. i < j \<and> j < length ?log \<and> 0 < bossCount (snd (?log ! i))
           \<and> fst (?log ! j) = fst (?log ! i) \<longrightarrow> bossCount (snd (?log ! j)) = 0"
  proof (intro allI impI)
    fix i j
    assume h: "i < j \<and> j < length ?log \<and> 0 < bossCount (snd (?log ! i))
           \<and> fst (?log ! j) = fst (?log ! i)"
    show "bossCount (snd (?log ! j)) = 0"
    proof (rule ccontr)
      assume "bossCount (snd (?log ! j)) \<noteq> 0"
      then have "0 < bossCount (snd (?log ! j))" by simp
      then have "fst (?log ! i) < fst (?log ! j)" using inc h by blast
      then show False using h by simp
    qed
  qed
  show ?thesis using one same inc by blast
qed

text \<open>
  Normal difficulty (a danger level every 30 s, a Boss every 5 levels): four calls that
  reach danger levels 3, 5, 5 and 10 emit a Boss on the second and the fourth only.
\<close>

theorem boss_once_per_danger_level_witness:
  "map (\<lambda>c. (fst c, bossCount (snd c)))
     (runUpdates NORMAL steadyRandom (spawnerReset NORMAL) 0
        [(60, 1500, 1000, 800, 600, 0, []), (60, 1500, 1000, 800, 600, 0, []),
         (1, 1500, 1000, 800, 600, 0, []), (200, 1500, 1000, 800, 600, 0, [])])
     = [(3, 0), (5, 1), (5, 0), (10, 1)]"
  using boss_once_per_danger_level [of NORMAL steadyRandom 0
        "[(60, 1500, 1000, 800, 600, 0, []), (60, 1500, 1000, 800, 600, 0, []),
         (1, 1500, 1000, 800, 600, 0, []), (200, 1500, 1000, 800, 600, 0, [])]"]
  by (simp add: Let_def update_dangerLevel update_bossCount update_elapsed update_lastBoss
        bossDue_def getDangerLevel_def advance_def spawnerReset_def NORMAL_def)

lemma update_batch_split:
  "length (fst (snd (update bal rnd sp n dt camX camY vw vh cur existing)))
     = bossCount (fst (snd (update bal rnd sp n dt camX camY vw vh cur existing)))
       + regularCount (fst (snd (update bal rnd sp n dt camX camY vw vh cur existing)))"
  unfolding bossCount_def regularCount_def
  by (rule sum_length_filter_compl [symmetric])

text \<open>
  C7, as the code has it. The number of regular enemies in a batch is at most
  \<open>min(maxSpawnPerTick, 1 + floor(elapsedTime / spawnCountDivisor))\<close> (for a non-negative
  \<open>maxSpawnPerTick\<close> and elapsed time) and at most the headroom
  \<open>maxEnemies - currentCount - bosses in this batch\<close>, or zero when that headroom is not
  positive. So a batch with a regular enemy never lifts the count above \<open>maxEnemies\<close>,
  and \<open>currentCount\<close> plus the regular spawns stays within \<open>maxEnemies\<close> whenever
  \<open>currentCount\<close> itself does. The Boss is emitted under the boss gate alone, whatever
  \<open>currentCount\<close> is.
\<close>

theorem regular_spawns_respect_cap:
  "int (regularCount (fst (snd (update bal rnd sp n dt camX camY vw vh cur existing))))
     \<le> max 0 (min (maxSpawnPerTick bal) (1 + \<lfloor>(s_elapsedTime sp + dt) / spawnCountDivisor bal\<rfloor>))
   \<and> (0 \<le> maxSpawnPerTick bal \<and> 0 \<le> (s_elapsedTime sp + dt) / spawnCountDivisor bal \<longrightarrow>
        int (regularCount (fst (snd (update bal rnd sp n dt camX camY vw vh cur existing))))
          \<le> min (maxSpawnPerTick bal) (1 + \<lfloor>(s_elapsedTime sp + dt) / spawnCountDivisor bal\<rfloor>))
   \<and> int (regularCount (fst (snd (update bal rnd sp n dt camX camY vw vh cur existing))))
     \<le> max 0 (maxEnemies bal - cur
               - int (bossCount (fst (snd (update bal rnd sp n dt camX camY vw vh cur existing)))))
   \<and> (0 < regularCount (fst (snd (update bal rnd sp n dt camX camY vw vh cur existing))) \<longrightarrow>
        cur + int (length (fst (snd (update bal rnd sp n dt camX camY vw vh cur existing))))
          \<le> maxEnemies bal)
   \<and> (cur \<le> maxEnemies bal \<longrightarrow>
        cur + int (regularCount (fst (snd (update bal rnd sp n dt camX camY vw vh cur existing))))
          \<le> maxEnemies bal)
   \<and> bossCount (fst (snd (update bal rnd sp n dt camX camY vw vh cur existing)))
       = (if bossDue bal (advance dt sp) then 1 else 0)"
proof -
  let ?batch = "fst (snd (update bal rnd sp n dt camX camY vw vh cur existing))"
  let ?b = "if bossDue bal (advance dt sp) then (1::int) else 0"
  let ?m = "min (maxSpawnPerTick bal) (1 + \<lfloor>(s_elapsedTime sp + dt) / spawnCountDivisor bal\<rfloor>)"
  have bc: "bossCount ?batch = (if bossDue bal (advance dt sp) then 1 else 0)"
    by (rule update_bossCount)
  have bci: "int (bossCount ?batch) = ?b" by (simp add: bc)
  have rc: "int (regularCount ?batch)
      = (if s_spawnTimer sp - dt \<le> 0 \<and> 0 < maxEnemies bal - cur - ?b
         then max 0 (min (maxEnemies bal - cur - ?b) ?m) else 0)"
    unfolding update_regularCount by (simp only: int_nat_eq max_def of_nat_0 if_distrib [of int] split: if_splits)
  have len: "int (length ?batch) = int (bossCount ?batch) + int (regularCount ?batch)"
    using update_batch_split [of bal rnd sp n dt camX camY vw vh cur existing] by simp
  have c1: "int (regularCount ?batch) \<le> max 0 ?m" unfolding rc by auto
  have c2: "0 \<le> maxSpawnPerTick bal \<and> 0 \<le> (s_elapsedTime sp + dt) / spawnCountDivisor bal
      \<longrightarrow> int (regularCount ?batch) \<le> ?m"
  proof
    assume h: "0 \<le> maxSpawnPerTick bal \<and> 0 \<le> (s_elapsedTime sp + dt) / spawnCountDivisor bal"
    then have "0 \<le> \<lfloor>(s_elapsedTime sp + dt) / spawnCountDivisor bal\<rfloor>" by simp
    then have "0 \<le> ?m" using h by simp
    then have "max 0 ?m = ?m" by (rule max_absorb2)
    then show "int (regularCount ?batch) \<le> ?m" using c1 by simp
  qed
  have c3: "int (regularCount ?batch) \<le> max 0 (maxEnemies bal - cur - int (bossCount ?batch))"
    unfolding bci unfolding rc by auto
  have c4: "0 < regularCount ?batch \<longrightarrow> cur + int (length ?batch) \<le> maxEnemies bal"
    using c3 unfolding len by linarith
  have c5: "cur \<le> maxEnemies bal \<longrightarrow> cur + int (regularCount ?batch) \<le> maxEnemies bal"
    using c3 by linarith
  show ?thesis using c1 c2 c3 c4 c5 bc by blast
qed

text \<open>
  Normal difficulty, the arena at its cap of 200 enemies, the clock reaching danger
  level 5 with the spawn timer expired: the Boss is emitted and no regular enemy is.
\<close>

theorem regular_spawns_respect_cap_witness:
  "bossCount (fst (snd (update NORMAL steadyRandom
       \<lparr> s_spawnTimer = 0, s_elapsedTime = 119, s_lastBossDangerLevel = 0 \<rparr>
       0 1 1500 1000 800 600 200 []))) = 1
   \<and> regularCount (fst (snd (update NORMAL steadyRandom
       \<lparr> s_spawnTimer = 0, s_elapsedTime = 119, s_lastBossDangerLevel = 0 \<rparr>
       0 1 1500 1000 800 600 200 []))) = 0
   \<and> regularCount (fst (snd (update NORMAL steadyRandom
       \<lparr> s_spawnTimer = 0, s_elapsedTime = 119, s_lastBossDangerLevel = 0 \<rparr>
       0 1 1500 1000 800 600 198 []))) = 1
   \<and> regularCount (fst (snd (update NORMAL steadyRandom
       \<lparr> s_spawnTimer = 0, s_elapsedTime = 119, s_lastBossDangerLevel = 0 \<rparr>
       0 1 1500 1000 800 600 100 []))) = 3"
  using regular_spawns_respect_cap [of NORMAL steadyRandom
       "\<lparr> s_spawnTimer = 0, s_elapsedTime = 119, s_lastBossDangerLevel = 0 \<rparr>"
       0 1 1500 1000 800 600 200 "[]"]
  by (simp add: update_bossCount update_regularCount bossDue_def getDangerLevel_def
        advance_def NORMAL_def)

text \<open>
  After a Boss has joined a full arena the count is 201 on Normal. The next call spawns
  no regular enemy, and the count plus the regular spawns is above \<open>maxEnemies\<close>: the
  bound on the sum holds only while \<open>currentCount\<close> is itself within the cap.
\<close>

theorem regular_spawns_over_cap_counterexample:
  "regularCount (fst (snd (update NORMAL steadyRandom
       \<lparr> s_spawnTimer = 0, s_elapsedTime = 121, s_lastBossDangerLevel = 5 \<rparr>
       0 (1/20) 1500 1000 800 600 201 (replicate 201 (newEnemy 100 100 Basic 2 NORMAL))))) = 0
   \<and> \<not> (201 + int (regularCount (fst (snd (update NORMAL steadyRandom
       \<lparr> s_spawnTimer = 0, s_elapsedTime = 121, s_lastBossDangerLevel = 5 \<rparr>
       0 (1/20) 1500 1000 800 600 201 (replicate 201 (newEnemy 100 100 Basic 2 NORMAL))))))
         \<le> maxEnemies NORMAL)
   \<and> \<not> (int (regularCount (fst (snd (update NORMAL steadyRandom
       \<lparr> s_spawnTimer = 0, s_elapsedTime = 121, s_lastBossDangerLevel = 5 \<rparr>
       0 (1/20) 1500 1000 800 600 201 (replicate 201 (newEnemy 100 100 Basic 2 NORMAL))))))
         \<le> maxEnemies NORMAL - 201)"
  by (simp add: update_regularCount bossDue_def getDangerLevel_def advance_def NORMAL_def)

section \<open>Collision resolver: pickups, detonations, pierce\<close>

lemma pickupFrame_refl: "pickupFrame s s"
  by (simp add: pickupFrame_def)

lemma pickupFrame_trans: "pickupFrame s s1 \<Longrightarrow> pickupFrame s1 s2 \<Longrightarrow> pickupFrame s s2"
  by (simp add: pickupFrame_def)

lemma takeDamage_geometry:
  "p_x (fst (takeDamage bal a p)) = p_x p \<and> p_y (fst (takeDamage bal a p)) = p_y p
   \<and> p_radius (fst (takeDamage bal a p)) = p_radius p"
  by (simp add: takeDamage_def Let_def)

lemma bulletHit_frame: "pickupFrame s (bulletHit i b s)"
  by (simp add: pickupFrame_def bulletHit_def Let_def)

lemma bulletVsEnemies_frame: "pickupFrame s (snd (bulletVsEnemies nearby b s))"
proof (induction nearby arbitrary: b s)
  case Nil
  then show ?case by (simp add: pickupFrame_refl)
next
  case (Cons i nearby)
  let ?b1 = "b\<lparr> b_pierceLeft := b_pierceLeft b - 1 \<rparr>"
  have step: "snd (bulletVsEnemies (i # nearby) b s) = snd (bulletVsEnemies nearby b s)
      \<or> snd (bulletVsEnemies (i # nearby) b s) = snd (bulletVsEnemies nearby ?b1 (bulletHit i b s))
      \<or> snd (bulletVsEnemies (i # nearby) b s) = bulletHit i b s"
    by simp
  then consider (skip) "snd (bulletVsEnemies (i # nearby) b s) = snd (bulletVsEnemies nearby b s)"
    | (pierce) "snd (bulletVsEnemies (i # nearby) b s) = snd (bulletVsEnemies nearby ?b1 (bulletHit i b s))"
    | (stop) "snd (bulletVsEnemies (i # nearby) b s) = bulletHit i b s"
    by blast
  then show ?case
  proof cases
    case skip
    then show ?thesis using Cons.IH by simp
  next
    case pierce
    then show ?thesis using pickupFrame_trans [OF bulletHit_frame Cons.IH] by simp
  next
    case stop
    then show ?thesis using bulletHit_frame by simp
  qed
qed

lemma checkPlayerBullets_total:
  assumes "gridShape g"
  shows "\<exists>bs' s'. checkPlayerBullets g bs s = Some (bs', s') \<and> pickupFrame s s'"
proof (induction bs arbitrary: s)
  case Nil
  then show ?case by (simp add: pickupFrame_refl)
next
  case (Cons b bs)
  show ?case
  proof (cases "b_alive b")
    case False
    obtain bs' s' where "checkPlayerBullets g bs s = Some (bs', s')" and "pickupFrame s s'"
      using Cons.IH [of s] by blast
    then show ?thesis using False by simp
  next
    case True
    obtain nearby where q: "queryCircle g (b_x b) (b_y b) (b_radius b + 50) = Some nearby"
      using queryCircle_total [OF assms] by blast
    let ?s1 = "snd (bulletVsEnemies nearby b s)"
    obtain bs' s' where r: "checkPlayerBullets g bs ?s1 = Some (bs', s')" and f: "pickupFrame ?s1 s'"
      using Cons.IH [of ?s1] by blast
    have "pickupFrame s s'"
      using pickupFrame_trans [OF bulletVsEnemies_frame f] .
    then show ?thesis using True q r by simp
  qed
qed

lemma enemyBulletLoop_frame: "pickupFrame s (snd (enemyBulletLoop bal bs s))"
proof (induction bs arbitrary: s)
  case Nil
  then show ?case by (simp add: pickupFrame_refl)
next
  case (Cons b bs)
  let ?s' = "s\<lparr> c_player := fst (takeDamage bal (b_damage b) (c_player s)),
                 c_result := (c_result s)\<lparr> r_playerHit := True \<rparr> \<rparr>"
  have fr: "pickupFrame s ?s'" by (simp add: pickupFrame_def takeDamage_geometry)
  have step: "snd (enemyBulletLoop bal (b # bs) s) = snd (enemyBulletLoop bal bs s)
      \<or> snd (enemyBulletLoop bal (b # bs) s) = snd (enemyBulletLoop bal bs ?s')"
    by (simp add: Let_def)
  then show ?case
  proof
    assume "snd (enemyBulletLoop bal (b # bs) s) = snd (enemyBulletLoop bal bs s)"
    then show ?thesis using Cons.IH by simp
  next
    assume "snd (enemyBulletLoop bal (b # bs) s) = snd (enemyBulletLoop bal bs ?s')"
    then show ?thesis using pickupFrame_trans [OF fr Cons.IH] by simp
  qed
qed

lemma checkEnemyBullets_frame: "pickupFrame s (snd (checkEnemyBullets bal bs s))"
  by (simp add: checkEnemyBullets_def enemyBulletLoop_frame pickupFrame_refl)

lemma contactLoop_frame: "pickupFrame s (contactLoop bal is s)"
proof (induction "is" arbitrary: s)
  case Nil
  then show ?case by (simp add: pickupFrame_refl)
next
  case (Cons i "is")
  let ?s' = "s\<lparr> c_player := fst (takeDamage bal (e_damage (c_enemies s ! i)) (c_player s)),
                 c_enemies := (c_enemies s)[i := resetContactCooldown (c_enemies s ! i)],
                 c_result := (c_result s)\<lparr> r_playerHit := True \<rparr> \<rparr>"
  have fr: "pickupFrame s ?s'" by (simp add: pickupFrame_def takeDamage_geometry)
  have step: "contactLoop bal (i # is) s = contactLoop bal is s
      \<or> contactLoop bal (i # is) s = ?s'
      \<or> contactLoop bal (i # is) s = contactLoop bal is ?s'"
    by (simp add: Let_def)
  then consider (skip) "contactLoop bal (i # is) s = contactLoop bal is s"
    | (died) "contactLoop bal (i # is) s = ?s'"
    | (hit) "contactLoop bal (i # is) s = contactLoop bal is ?s'"
    by blast
  then show ?case
  proof cases
    case skip
    then show ?thesis using Cons.IH by simp
  next
    case died
    then show ?thesis using fr by simp
  next
    case hit
    then show ?thesis using pickupFrame_trans [OF fr Cons.IH] by simp
  qed
qed

lemma checkContact_total:
  assumes "gridShape g"
  shows "\<exists>s'. checkContact bal g s = Some s' \<and> pickupFrame s s'"
proof -
  obtain nearPlayer where
    "queryCircle g (p_x (c_player s)) (p_y (c_player s)) (p_radius (c_player s) + 50) = Some nearPlayer"
    using queryCircle_total [OF assms] by blast
  then show ?thesis
    by (simp add: checkContact_def contactLoop_frame pickupFrame_refl)
qed

lemma exploderLoop_frame: "pickupFrame s (exploderLoop bal is s)"
proof (induction "is" arbitrary: s)
  case Nil
  then show ?case by (simp add: pickupFrame_refl)
next
  case (Cons i "is")
  let ?s' = "s\<lparr> c_player := fst (takeDamage bal (e_damage (c_enemies s ! i)) (c_player s)),
                 c_result := (c_result s)\<lparr> r_playerHit := True \<rparr> \<rparr>"
  have fr: "pickupFrame s ?s'" by (simp add: pickupFrame_def takeDamage_geometry)
  have step: "exploderLoop bal (i # is) s = exploderLoop bal is s
      \<or> exploderLoop bal (i # is) s = exploderLoop bal is ?s'"
    by simp
  then show ?case
  proof
    assume "exploderLoop bal (i # is) s = exploderLoop bal is s"
    then show ?thesis using Cons.IH by simp
  next
    assume "exploderLoop bal (i # is) s = exploderLoop bal is ?s'"
    then show ?thesis using pickupFrame_trans [OF fr Cons.IH] by simp
  qed
qed

lemma checkExploders_frame: "pickupFrame s (checkExploders bal s)"
  by (simp add: checkExploders_def exploderLoop_frame pickupFrame_refl)

lemma checkPickups_pickups:
  "fst (checkPickups pl ks res) = map (\<lambda>k. if collects pl k then k\<lparr> k_alive := False \<rparr> else k) ks"
  by (induction ks arbitrary: res) (simp_all add: collects_def Let_def)

lemma checkPickups_xp:
  "r_xpGained (snd (checkPickups pl ks res))
     = r_xpGained res + sum_list (map k_value (filter (\<lambda>k. collects pl k \<and> k_type k = XP) ks))"
  by (induction ks arbitrary: res) (auto simp: collects_def Let_def split: PickupType.splits)

lemma checkPickups_health:
  "r_healthGained (snd (checkPickups pl ks res))
     = r_healthGained res
       + sum_list (map k_value (filter (\<lambda>k. collects pl k \<and> k_type k = Health) ks))"
  by (induction ks arbitrary: res) (auto simp: collects_def Let_def split: PickupType.splits)

lemma collects_geometry:
  "p_x pl' = p_x pl \<Longrightarrow> p_y pl' = p_y pl \<Longrightarrow> p_radius pl' = p_radius pl \<Longrightarrow>
   collects pl' = collects pl"
  by (rule ext) (simp add: collects_def)

text \<open>
  C8. \<open>checkAll\<close> returns normally, and check 5 is not gated on the player being alive:
  for every player, dead ones included, exactly the alive pickups that overlap the
  player's circle widened by 5 are marked not-alive, the others are left as they are, and
  the result's \<open>xpGained\<close> and \<open>healthGained\<close> are the sums of the values of the collected XP
  and Health pickups.
\<close>

theorem pickups_collected_regardless_of_alive:
  assumes "gridShape grid"
  shows "\<exists>out. checkAll bal grid player enemies playerBullets enemyBullets pickups = Some out
     \<and> o_pickups out = map (\<lambda>k. if collects player k then k\<lparr> k_alive := False \<rparr> else k) pickups
     \<and> r_xpGained (o_result out)
         = sum_list (map k_value (filter (\<lambda>k. collects player k \<and> k_type k = XP) pickups))
     \<and> r_healthGained (o_result out)
         = sum_list (map k_value (filter (\<lambda>k. collects player k \<and> k_type k = Health) pickups))"
proof -
  let ?s0 = "\<lparr> c_player = player, c_enemies = enemies, c_result = resetResult \<rparr>"
  obtain g where g: "buildGrid grid enemies = Some g" and sh: "gridShape g"
    using buildGrid_total [OF assms] by blast
  obtain pbs s1 where c1: "checkPlayerBullets g playerBullets ?s0 = Some (pbs, s1)"
    and f1: "pickupFrame ?s0 s1"
    using checkPlayerBullets_total [OF sh] by blast
  let ?s2 = "snd (checkEnemyBullets bal enemyBullets s1)"
  have f2: "pickupFrame s1 ?s2" by (rule checkEnemyBullets_frame)
  obtain s3 where c3: "checkContact bal g ?s2 = Some s3" and f3: "pickupFrame ?s2 s3"
    using checkContact_total [OF sh] by blast
  let ?s4 = "checkExploders bal s3"
  have f4: "pickupFrame s3 ?s4" by (rule checkExploders_frame)
  have f: "pickupFrame ?s0 ?s4"
    using pickupFrame_trans [OF pickupFrame_trans [OF pickupFrame_trans [OF f1 f2] f3] f4] .
  have geo: "collects (c_player ?s4) = collects player"
    using f by (intro collects_geometry) (simp_all add: pickupFrame_def)
  have xp0: "r_xpGained (c_result ?s4) = 0" and hp0: "r_healthGained (c_result ?s4) = 0"
    using f by (simp_all add: pickupFrame_def resetResult_def)
  let ?out = "\<lparr> o_grid = g, o_player = c_player ?s4, o_enemies = c_enemies ?s4,
                 o_playerBullets = pbs, o_enemyBullets = fst (checkEnemyBullets bal enemyBullets s1),
                 o_pickups = fst (checkPickups (c_player ?s4) pickups (c_result ?s4)),
                 o_result = snd (checkPickups (c_player ?s4) pickups (c_result ?s4)) \<rparr>"
  have all: "checkAll bal grid player enemies playerBullets enemyBullets pickups = Some ?out"
    using g c1 c3 by (simp add: checkAll_def Let_def)
  have "o_pickups ?out = map (\<lambda>k. if collects player k then k\<lparr> k_alive := False \<rparr> else k) pickups"
    by (simp add: checkPickups_pickups geo)
  moreover have "r_xpGained (o_result ?out)
         = sum_list (map k_value (filter (\<lambda>k. collects player k \<and> k_type k = XP) pickups))"
    by (simp add: checkPickups_xp geo xp0)
  moreover have "r_healthGained (o_result ?out)
         = sum_list (map k_value (filter (\<lambda>k. collects player k \<and> k_type k = Health) pickups))"
    by (simp add: checkPickups_health geo hp0)
  ultimately show ?thesis using all by blast
qed

text \<open>
  A dead player at the arena centre, no enemies or bullets, and three pickups: an XP gem
  and a health pickup within reach, and an XP gem far away. The two in reach are
  collected.
\<close>

theorem pickups_collected_regardless_of_alive_witness:
  "\<exists>out. checkAll NORMAL enemyGrid ((reset NORMAL 1500 1000)\<lparr> p_health := 0, p_alive := False \<rparr>)
            [] [] []
            [\<lparr> k_x = 1510, k_y = 1000, k_radius = 8, k_type = XP, k_value = 3, k_alive = True \<rparr>,
             \<lparr> k_x = 1500, k_y = 1020, k_radius = 10, k_type = Health, k_value = 1, k_alive = True \<rparr>,
             \<lparr> k_x = 100, k_y = 100, k_radius = 8, k_type = XP, k_value = 2, k_alive = True \<rparr>]
          = Some out
     \<and> o_pickups out =
           [\<lparr> k_x = 1510, k_y = 1000, k_radius = 8, k_type = XP, k_value = 3, k_alive = False \<rparr>,
            \<lparr> k_x = 1500, k_y = 1020, k_radius = 10, k_type = Health, k_value = 1, k_alive = False \<rparr>,
            \<lparr> k_x = 100, k_y = 100, k_radius = 8, k_type = XP, k_value = 2, k_alive = True \<rparr>]
     \<and> r_xpGained (o_result out) = 3 \<and> r_healthGained (o_result out) = 1"
  using pickups_collected_regardless_of_alive [OF enemyGrid_shape, of NORMAL
          "(reset NORMAL 1500 1000)\<lparr> p_health := 0, p_alive := False \<rparr>" "[]" "[]" "[]"
          "[\<lparr> k_x = 1510, k_y = 1000, k_radius = 8, k_type = XP, k_value = 3, k_alive = True \<rparr>,
             \<lparr> k_x = 1500, k_y = 1020, k_radius = 10, k_type = Health, k_value = 1, k_alive = True \<rparr>,
             \<lparr> k_x = 100, k_y = 100, k_radius = 8, k_type = XP, k_value = 2, k_alive = True \<rparr>]"]
  by (simp add: collects_def circlesOverlap_def reset_def Let_def)

subsection \<open>Check 4: exploder detonation against the player\<close>

lemma takeDamage_sets_invuln: "\<not> p_isInvuln p \<Longrightarrow> p_isInvuln (fst (takeDamage bal a p))"
  by (simp add: takeDamage_def Let_def)

lemma takeDamage_invuln_player: "p_isInvuln p \<Longrightarrow> fst (takeDamage bal a p) = p"
  by (simp add: takeDamage_def)

lemma explosionReaches_geometry:
  "p_x pl' = p_x pl \<Longrightarrow> p_y pl' = p_y pl \<Longrightarrow> p_radius pl' = p_radius pl \<Longrightarrow>
   explosionReaches pl' e = explosionReaches pl e"
  by (simp add: explosionReaches_def)

lemma exploderLoop_Cons:
  "exploderLoop bal (i # exps) s =
     (if explosionReaches (c_player s) (c_enemies s ! i)
      then exploderLoop bal exps
             (s\<lparr> c_player := fst (takeDamage bal (e_damage (c_enemies s ! i)) (c_player s)),
                 c_result := (c_result s)\<lparr> r_playerHit := True \<rparr> \<rparr>)
      else exploderLoop bal exps s)"
  by (simp add: explosionReaches_def)

lemma exploderLoop_no_hit:
  "filter (\<lambda>i. explosionReaches (c_player s) (c_enemies s ! i)) exps = [] \<Longrightarrow>
   exploderLoop bal exps s = s"
  by (induction exps) (simp_all add: exploderLoop_Cons del: exploderLoop.simps(2) split: if_splits)

lemma exploderLoop_invuln:
  "p_isInvuln (c_player s) \<Longrightarrow>
   exploderLoop bal exps s =
     (if filter (\<lambda>i. explosionReaches (c_player s) (c_enemies s ! i)) exps = [] then s
      else s\<lparr> c_result := (c_result s)\<lparr> r_playerHit := True \<rparr> \<rparr>)"
proof (induction exps arbitrary: s)
  case Nil
  then show ?case by simp
next
  case (Cons i exps)
  let ?s' = "s\<lparr> c_result := (c_result s)\<lparr> r_playerHit := True \<rparr> \<rparr>"
  show ?case
  proof (cases "explosionReaches (c_player s) (c_enemies s ! i)")
    case True
    have eq: "s\<lparr> c_player := fst (takeDamage bal (e_damage (c_enemies s ! i)) (c_player s)),
                 c_result := (c_result s)\<lparr> r_playerHit := True \<rparr> \<rparr> = ?s'"
      using Cons.prems by (simp add: takeDamage_invuln_player)
    have inv: "p_isInvuln (c_player ?s')" using Cons.prems by simp
    have "exploderLoop bal (i # exps) s = exploderLoop bal exps ?s'"
      unfolding exploderLoop_Cons using True eq by simp
    also have "\<dots> = ?s'"
      using Cons.IH [OF inv] by simp
    finally show ?thesis using True by simp
  next
    case False
    then show ?thesis unfolding exploderLoop_Cons using Cons.IH [OF Cons.prems] by simp
  qed
qed

lemma exploderLoop_first_hit:
  "filter (\<lambda>i. explosionReaches (c_player s) (c_enemies s ! i)) exps \<noteq> [] \<Longrightarrow>
   exploderLoop bal exps s =
     s\<lparr> c_player := fst (takeDamage bal
            (e_damage (c_enemies s ! hd (filter (\<lambda>i. explosionReaches (c_player s) (c_enemies s ! i)) exps)))
            (c_player s)),
        c_result := (c_result s)\<lparr> r_playerHit := True \<rparr> \<rparr>"
proof (induction exps arbitrary: s)
  case Nil
  then show ?case by simp
next
  case (Cons i exps)
  show ?case
  proof (cases "explosionReaches (c_player s) (c_enemies s ! i)")
    case False
    then show ?thesis unfolding exploderLoop_Cons using Cons.IH [of s] Cons.prems by simp
  next
    case True
    let ?p1 = "fst (takeDamage bal (e_damage (c_enemies s ! i)) (c_player s))"
    let ?s' = "s\<lparr> c_player := ?p1, c_result := (c_result s)\<lparr> r_playerHit := True \<rparr> \<rparr>"
    have inv: "p_isInvuln (c_player ?s')"
      using takeDamage_sets_invuln [of "c_player s" bal] takeDamage_invuln_player [of "c_player s" bal]
      by (cases "p_isInvuln (c_player s)") simp_all
    have "exploderLoop bal (i # exps) s = exploderLoop bal exps ?s'"
      unfolding exploderLoop_Cons using True by simp
    also have "\<dots> = ?s'"
      using exploderLoop_invuln [OF inv, of bal exps] by (simp split: if_splits)
    finally show ?thesis using True by simp
  qed
qed

text \<open>
  C1, as the code has it. Check 4 runs when the player is alive and a detonation was
  recorded; it is not itself gated on invulnerability. If some recorded detonation's
  explosion circle (\<open>explodeRadius\<close>) overlaps the player's circle, player-hit is recorded
  and \<open>takeDamage\<close> is applied with the contact damage of the first such exploder; every
  later overlapping detonation meets the invulnerability that the first one started.
  Since \<open>takeDamage\<close> does nothing during invulnerability, a player who is invulnerable
  when the check runs is left unchanged. In every other case the state is unchanged.
\<close>

theorem detonation_damage_goes_through_takeDamage:
  "(p_alive (c_player s)
      \<and> filter (\<lambda>i. explosionReaches (c_player s) (c_enemies s ! i)) (r_exploderDeaths (c_result s)) \<noteq> []
    \<longrightarrow> checkExploders bal s =
          s\<lparr> c_player := fst (takeDamage bal
                 (e_damage (c_enemies s ! hd (filter (\<lambda>i. explosionReaches (c_player s) (c_enemies s ! i))
                                                (r_exploderDeaths (c_result s)))))
                 (c_player s)),
             c_result := (c_result s)\<lparr> r_playerHit := True \<rparr> \<rparr>
        \<and> (p_isInvuln (c_player s) \<longrightarrow> c_player (checkExploders bal s) = c_player s))
   \<and> (\<not> (p_alive (c_player s)
          \<and> filter (\<lambda>i. explosionReaches (c_player s) (c_enemies s ! i)) (r_exploderDeaths (c_result s)) \<noteq> [])
    \<longrightarrow> checkExploders bal s = s)"
proof -
  let ?hits = "filter (\<lambda>i. explosionReaches (c_player s) (c_enemies s ! i)) (r_exploderDeaths (c_result s))"
  have a: "p_alive (c_player s) \<and> ?hits \<noteq> [] \<longrightarrow> checkExploders bal s =
          s\<lparr> c_player := fst (takeDamage bal (e_damage (c_enemies s ! hd ?hits)) (c_player s)),
             c_result := (c_result s)\<lparr> r_playerHit := True \<rparr> \<rparr>"
  proof
    assume h: "p_alive (c_player s) \<and> ?hits \<noteq> []"
    then have ne: "r_exploderDeaths (c_result s) \<noteq> []" by auto
    have "checkExploders bal s = exploderLoop bal (r_exploderDeaths (c_result s)) s"
      using h ne by (simp add: checkExploders_def)
    then show "checkExploders bal s =
          s\<lparr> c_player := fst (takeDamage bal (e_damage (c_enemies s ! hd ?hits)) (c_player s)),
             c_result := (c_result s)\<lparr> r_playerHit := True \<rparr> \<rparr>"
      using exploderLoop_first_hit [of s "r_exploderDeaths (c_result s)" bal] h by simp
  qed
  have b: "p_alive (c_player s) \<and> ?hits \<noteq> [] \<longrightarrow> p_isInvuln (c_player s)
      \<longrightarrow> c_player (checkExploders bal s) = c_player s"
    using a by (simp add: takeDamage_invuln_player)
  have c: "\<not> (p_alive (c_player s) \<and> ?hits \<noteq> []) \<longrightarrow> checkExploders bal s = s"
  proof
    assume h: "\<not> (p_alive (c_player s) \<and> ?hits \<noteq> [])"
    show "checkExploders bal s = s"
    proof (cases "p_alive (c_player s) \<and> 0 < length (r_exploderDeaths (c_result s))")
      case False
      then show ?thesis by (simp add: checkExploders_def)
    next
      case True
      then have e: "?hits = []" using h by simp
      have "checkExploders bal s = exploderLoop bal (r_exploderDeaths (c_result s)) s"
        using True by (simp add: checkExploders_def)
      moreover have "exploderLoop bal (r_exploderDeaths (c_result s)) s = s"
        using e by (rule exploderLoop_no_hit)
      ultimately show ?thesis using e by simp
    qed
  qed
  show ?thesis using a b c by blast
qed

lemma nearExploder_fields:
  "e_x nearExploder = 1530 \<and> e_y nearExploder = 1000 \<and> e_radius nearExploder = 16
   \<and> e_hp nearExploder = 2 \<and> e_damage nearExploder = 3 \<and> e_type nearExploder = Exploder
   \<and> e_alive nearExploder \<and> e_explodeRadius nearExploder = 80
   \<and> e_contactCooldown nearExploder = 0"
  by (simp add: nearExploder_def newEnemy_def Let_def NORMAL_def)

lemma scenario_grid:
  "buildGrid enemyGrid [nearExploder] = Some (enemyGrid\<lparr> g_cells := (replicate 468 [])[220 := [0]] \<rparr>)"
  by (simp add: buildGrid_def clear_def insert_grid_def getKey_def enemyGrid_def newSpatialGrid_def
        Let_def nearExploder_fields ARENA_WIDTH_def ARENA_HEIGHT_def SPATIAL_CELL_SIZE_def)

lemma scenario_bullet_query:
  "queryCircle (enemyGrid\<lparr> g_cells := (replicate 468 [])[220 := [0]] \<rparr>) 1520 1000 54 = Some [0]"
  by (simp add: queryCircle_def cellAt_def getKey_def enemyGrid_def newSpatialGrid_def
        Let_def ARENA_WIDTH_def ARENA_HEIGHT_def SPATIAL_CELL_SIZE_def upto_rec1)

lemma scenario_player_query:
  "queryCircle (enemyGrid\<lparr> g_cells := (replicate 468 [])[220 := [0]] \<rparr>) 1500 1000 66 = Some [0]"
  by (simp add: queryCircle_def cellAt_def getKey_def enemyGrid_def newSpatialGrid_def
        Let_def ARENA_WIDTH_def ARENA_HEIGHT_def SPATIAL_CELL_SIZE_def upto_rec1)

lemma scenario_bullet_fields:
  "b_x killingBullet = 1520 \<and> b_y killingBullet = 1000 \<and> b_radius killingBullet = 4
   \<and> b_damage killingBullet = 2 \<and> b_pierceLeft killingBullet = 0 \<and> b_alive killingBullet"
  by (simp add: killingBullet_def newBullet_def)

lemma scenario_player_fields:
  "p_x dashingPlayer = 1500 \<and> p_y dashingPlayer = 1000 \<and> p_radius dashingPlayer = 16
   \<and> p_health dashingPlayer = 5 \<and> p_alive dashingPlayer \<and> p_isInvuln dashingPlayer"
  by (simp add: dashingPlayer_def reset_def NORMAL_def)

lemma scenario_check1:
  "checkPlayerBullets (enemyGrid\<lparr> g_cells := (replicate 468 [])[220 := [0]] \<rparr>) [killingBullet]
     \<lparr> c_player = dashingPlayer, c_enemies = [nearExploder], c_result = resetResult \<rparr>
   = Some ([killingBullet\<lparr> b_alive := False \<rparr>],
           bulletHit 0 killingBullet
             \<lparr> c_player = dashingPlayer, c_enemies = [nearExploder], c_result = resetResult \<rparr>)"
  using scenario_bullet_query
  by (simp add: scenario_bullet_fields nearExploder_fields circlesOverlap_def)

lemma scenario_after_hit:
  "bulletHit 0 killingBullet
     \<lparr> c_player = dashingPlayer, c_enemies = [nearExploder], c_result = resetResult \<rparr>
   = \<lparr> c_player = dashingPlayer\<lparr> p_killCount := 1 \<rparr>,
       c_enemies = [nearExploder\<lparr> e_hp := 0, e_flashTimer := FLASH_DURATION, e_alive := False \<rparr>],
       c_result = resetResult\<lparr> r_enemiesKilled := [0], r_exploderDeaths := [0],
                    r_enemyHitPositions := [(1530, 984, 2)],
                    r_hitPositions := [(1525, 1000, ''#fdd835'')] \<rparr> \<rparr>"
  by (simp add: bulletHit_def Let_def enemyTakeDamage_def scenario_bullet_fields nearExploder_fields
        resetResult_def dashingPlayer_def reset_def)
     (simp add: nearExploder_def newEnemy_def Let_def)

lemma scenario_checkAll:
  "checkAll NORMAL enemyGrid dashingPlayer [nearExploder] [killingBullet] [] []
   = Some \<lparr> o_grid = enemyGrid\<lparr> g_cells := (replicate 468 [])[220 := [0]] \<rparr>,
            o_player = dashingPlayer\<lparr> p_killCount := 1 \<rparr>,
            o_enemies = [nearExploder\<lparr> e_hp := 0, e_flashTimer := FLASH_DURATION, e_alive := False \<rparr>],
            o_playerBullets = [killingBullet\<lparr> b_alive := False \<rparr>],
            o_enemyBullets = [],
            o_pickups = [],
            o_result = resetResult\<lparr> r_playerHit := True, r_enemiesKilled := [0],
                         r_exploderDeaths := [0],
                         r_enemyHitPositions := [(1530, 984, 2)],
                         r_hitPositions := [(1525, 1000, ''#fdd835'')] \<rparr> \<rparr>"
proof -
  let ?g = "enemyGrid\<lparr> g_cells := (replicate 468 [])[220 := [0]] \<rparr>"
  let ?s1 = "\<lparr> c_player = dashingPlayer\<lparr> p_killCount := 1 \<rparr>,
       c_enemies = [nearExploder\<lparr> e_hp := 0, e_flashTimer := FLASH_DURATION, e_alive := False \<rparr>],
       c_result = resetResult\<lparr> r_enemiesKilled := [0], r_exploderDeaths := [0],
                    r_enemyHitPositions := [(1530, 984, 2)],
                    r_hitPositions := [(1525, 1000, ''#fdd835'')] \<rparr> \<rparr>"
  have c1: "checkPlayerBullets ?g [killingBullet]
       \<lparr> c_player = dashingPlayer, c_enemies = [nearExploder], c_result = resetResult \<rparr>
     = Some ([killingBullet\<lparr> b_alive := False \<rparr>], ?s1)"
    by (simp only: scenario_check1 scenario_after_hit)
  have c2: "checkEnemyBullets NORMAL [] ?s1 = ([], ?s1)"
    by (simp add: checkEnemyBullets_def)
  have c3: "checkContact NORMAL ?g ?s1 = Some ?s1"
    using scenario_player_query
    by (simp add: checkContact_def scenario_player_fields)
  have c4: "checkExploders NORMAL ?s1 = ?s1\<lparr> c_result := (c_result ?s1)\<lparr> r_playerHit := True \<rparr> \<rparr>"
    by (simp add: checkExploders_def scenario_player_fields nearExploder_fields circlesOverlap_def
          takeDamage_def resetResult_def)
  show ?thesis
    unfolding checkAll_def scenario_grid
    by (simp only: c1 c2 c3 c4 Let_def option.case prod.case fst_conv snd_conv)
       (simp add: resetResult_def)
qed

text \<open>
  The tick above: the bullet kills the Exploder, whose explosion circle (radius 80)
  covers the player 30 pixels away. Check 4 runs and records player-hit, and the
  invulnerable player keeps all 5 health: the exploder's contact damage of 3 is not
  applied.
\<close>

theorem detonation_during_invulnerability_counterexample:
  "p_alive dashingPlayer \<and> p_isInvuln dashingPlayer
   \<and> r_exploderDeaths (o_result (the (checkAll NORMAL enemyGrid dashingPlayer
          [nearExploder] [killingBullet] [] []))) = [0]
   \<and> explosionReaches dashingPlayer
         (o_enemies (the (checkAll NORMAL enemyGrid dashingPlayer
            [nearExploder] [killingBullet] [] [])) ! 0)
   \<and> e_damage (o_enemies (the (checkAll NORMAL enemyGrid dashingPlayer
         [nearExploder] [killingBullet] [] [])) ! 0) = 3
   \<and> r_playerHit (o_result (the (checkAll NORMAL enemyGrid dashingPlayer
         [nearExploder] [killingBullet] [] [])))
   \<and> p_health (o_player (the (checkAll NORMAL enemyGrid dashingPlayer
         [nearExploder] [killingBullet] [] []))) = 5
   \<and> p_health dashingPlayer = 5"
  by (simp add: scenario_checkAll scenario_player_fields nearExploder_fields explosionReaches_def
        circlesOverlap_def resetResult_def)

text \<open>
  Two detonations reach a player who is not invulnerable: the first takes 3 of the 5
  health and starts the invulnerability window, the second changes nothing more.
\<close>

theorem detonation_damage_goes_through_takeDamage_witness:
  "checkExploders NORMAL
     \<lparr> c_player = reset NORMAL 1500 1000,
       c_enemies = [nearExploder\<lparr> e_hp := 0, e_alive := False \<rparr>,
                    nearExploder\<lparr> e_x := 1480, e_hp := 0, e_alive := False \<rparr>],
       c_result = resetResult\<lparr> r_exploderDeaths := [0, 1] \<rparr> \<rparr>
   = \<lparr> c_player = (reset NORMAL 1500 1000)\<lparr> p_health := 2, p_invulnTimer := 1, p_isInvuln := True \<rparr>,
       c_enemies = [nearExploder\<lparr> e_hp := 0, e_alive := False \<rparr>,
                    nearExploder\<lparr> e_x := 1480, e_hp := 0, e_alive := False \<rparr>],
       c_result = resetResult\<lparr> r_playerHit := True, r_exploderDeaths := [0, 1] \<rparr> \<rparr>"
  using detonation_damage_goes_through_takeDamage [of
     "\<lparr> c_player = reset NORMAL 1500 1000,
       c_enemies = [nearExploder\<lparr> e_hp := 0, e_alive := False \<rparr>,
                    nearExploder\<lparr> e_x := 1480, e_hp := 0, e_alive := False \<rparr>],
       c_result = resetResult\<lparr> r_exploderDeaths := [0, 1] \<rparr> \<rparr>" NORMAL]
  by (simp add: explosionReaches_def circlesOverlap_def nearExploder_fields takeDamage_def
        reset_def NORMAL_def resetResult_def Let_def)

subsection \<open>Check 1: player bullets, damage and pierce\<close>

lemma bulletVsEnemies_Cons:
  "bulletVsEnemies (i # nearby) b s =
     (if bulletHits b s i
      then (if b_pierceLeft b > 0
            then bulletVsEnemies nearby (b\<lparr> b_pierceLeft := b_pierceLeft b - 1 \<rparr>) (bulletHit i b s)
            else (b\<lparr> b_alive := False \<rparr>, bulletHit i b s))
      else bulletVsEnemies nearby b s)"
  by (simp add: bulletHits_def bulletOverlaps_def)

lemma bulletHit_enemies:
  "c_enemies (bulletHit i b s) = (c_enemies s)[i := fst (enemyTakeDamage (b_damage b) (c_enemies s ! i))]"
  by (simp add: bulletHit_def Let_def)

lemma bulletHits_after_other_hit:
  "j \<noteq> i \<Longrightarrow> bulletHits (b\<lparr> b_pierceLeft := p \<rparr>) (bulletHit i b s) j = bulletHits b s j"
  by (simp add: bulletHits_def bulletOverlaps_def bulletHit_enemies)

lemma filter_hits_after_hit:
  assumes "i \<notin> set rest"
  shows "filter (bulletHits (b\<lparr> b_pierceLeft := p \<rparr>) (bulletHit i b s)) rest = filter (bulletHits b s) rest"
proof (rule filter_cong [OF refl])
  fix j assume "j \<in> set rest"
  then have "j \<noteq> i" using assms by auto
  then show "bulletHits (b\<lparr> b_pierceLeft := p \<rparr>) (bulletHit i b s) j = bulletHits b s j"
    by (rule bulletHits_after_other_hit)
qed

lemma bulletVsEnemies_mono:
  "b_pierceLeft (fst (bulletVsEnemies nearby b s)) \<le> b_pierceLeft b
   \<and> (0 \<le> b_pierceLeft b \<longrightarrow> 0 \<le> b_pierceLeft (fst (bulletVsEnemies nearby b s)))
   \<and> (b_alive (fst (bulletVsEnemies nearby b s)) \<longrightarrow> b_alive b)"
proof (induction nearby arbitrary: b s)
  case Nil
  then show ?case by simp
next
  case (Cons i nearby)
  let ?b1 = "b\<lparr> b_pierceLeft := b_pierceLeft b - 1 \<rparr>"
  consider (skip) "\<not> bulletHits b s i"
    | (pierce) "bulletHits b s i" "b_pierceLeft b > 0"
    | (stop) "bulletHits b s i" "\<not> b_pierceLeft b > 0"
    by blast
  then show ?case
  proof cases
    case skip
    then show ?thesis unfolding bulletVsEnemies_Cons using Cons.IH [where b = b and s = s] by simp
  next
    case pierce
    then show ?thesis unfolding bulletVsEnemies_Cons
      using Cons.IH [where b = ?b1 and s = "bulletHit i b s"] by simp
  next
    case stop
    then show ?thesis unfolding bulletVsEnemies_Cons by simp
  qed
qed

lemma pierce_step_arith:
  "0 < (p::int) \<Longrightarrow> p - 1 - int (min l (nat (p - 1))) = p - int (min (Suc l) (nat p))"
  by arith

lemma pierce_step_alive: "0 < (p::int) \<Longrightarrow> (l \<le> nat (p - 1)) = (Suc l \<le> nat p)"
  by arith

lemma bulletVsEnemies_exact:
  "distinct nearby \<Longrightarrow> \<forall>i\<in>set nearby. i < length (c_enemies s) \<Longrightarrow> 0 \<le> b_pierceLeft b \<Longrightarrow>
   fst (bulletVsEnemies nearby b s)
     = b\<lparr> b_pierceLeft := b_pierceLeft b
            - int (min (length (filter (bulletHits b s) nearby)) (nat (b_pierceLeft b))),
          b_alive := (b_alive b \<and> length (filter (bulletHits b s) nearby) \<le> nat (b_pierceLeft b)) \<rparr>
   \<and> length (c_enemies (snd (bulletVsEnemies nearby b s))) = length (c_enemies s)
   \<and> (\<forall>j<length (c_enemies s).
         c_enemies (snd (bulletVsEnemies nearby b s)) ! j
           = (if j \<in> set (take (nat (b_pierceLeft b) + 1) (filter (bulletHits b s) nearby))
              then fst (enemyTakeDamage (b_damage b) (c_enemies s ! j))
              else c_enemies s ! j))"
proof (induction nearby arbitrary: b s)
  case Nil
  then show ?case by simp
next
  case (Cons i rest)
  let ?p = "b_pierceLeft b"
  let ?b1 = "b\<lparr> b_pierceLeft := ?p - 1 \<rparr>"
  let ?s1 = "bulletHit i b s"
  let ?Hr = "filter (bulletHits b s) rest"
  have d: "distinct rest" and ni: "i \<notin> set rest" using Cons.prems(1) by simp_all
  have il: "i < length (c_enemies s)" using Cons.prems(2) by simp
  have v: "\<forall>i\<in>set rest. i < length (c_enemies s)" using Cons.prems(2) by simp
  have niH: "i \<notin> set ?Hr" using ni by simp
  consider (skip) "\<not> bulletHits b s i"
    | (pierce) "bulletHits b s i" "?p > 0"
    | (stop) "bulletHits b s i" "?p = 0"
    using Cons.prems(3) by fastforce
  then show ?case
  proof cases
    case skip
    then show ?thesis
      unfolding bulletVsEnemies_Cons using Cons.IH [OF d v Cons.prems(3)] by simp
  next
    case stop
    have e1: "fst (bulletVsEnemies (i # rest) b s) = b\<lparr> b_alive := False \<rparr>"
      and e2: "snd (bulletVsEnemies (i # rest) b s) = ?s1"
      unfolding bulletVsEnemies_Cons using stop by simp_all
    have f: "filter (bulletHits b s) (i # rest) = i # ?Hr" using stop by simp
    have a: "b\<lparr> b_alive := False \<rparr>
       = b\<lparr> b_pierceLeft := ?p - int (min (length (i # ?Hr)) (nat ?p)),
            b_alive := (b_alive b \<and> length (i # ?Hr) \<le> nat ?p) \<rparr>"
      using stop by simp
    have c: "\<forall>j<length (c_enemies s). c_enemies ?s1 ! j
           = (if j \<in> set (take (nat ?p + 1) (i # ?Hr))
              then fst (enemyTakeDamage (b_damage b) (c_enemies s ! j)) else c_enemies s ! j)"
      using stop il by (simp add: bulletHit_enemies nth_list_update)
    show ?thesis unfolding e1 e2 f using a c by (simp add: bulletHit_enemies)
  next
    case pierce
    have e: "bulletVsEnemies (i # rest) b s = bulletVsEnemies rest ?b1 ?s1"
      unfolding bulletVsEnemies_Cons using pierce by simp
    have f: "filter (bulletHits b s) (i # rest) = i # ?Hr" using pierce by simp
    have f1: "filter (bulletHits ?b1 ?s1) rest = ?Hr" by (rule filter_hits_after_hit [OF ni])
    have len1: "length (c_enemies ?s1) = length (c_enemies s)" by (simp add: bulletHit_enemies)
    have v1: "\<forall>i\<in>set rest. i < length (c_enemies ?s1)" using v len1 by simp
    have p1: "0 \<le> b_pierceLeft ?b1" using pierce by simp
    note ih = Cons.IH [OF d v1 p1, unfolded f1]
    have np: "nat (?p - 1) + 1 = nat ?p" using pierce by simp
    have np2: "nat ?p + 1 = Suc (nat ?p)" by simp
    have a: "fst (bulletVsEnemies rest ?b1 ?s1)
       = b\<lparr> b_pierceLeft := ?p - int (min (length (i # ?Hr)) (nat ?p)),
            b_alive := (b_alive b \<and> length (i # ?Hr) \<le> nat ?p) \<rparr>"
    proof -
      have x: "?p - 1 - int (min (length ?Hr) (nat (?p - 1))) = ?p - int (min (length (i # ?Hr)) (nat ?p))"
        using pierce_step_arith [OF pierce(2), of "length ?Hr"] by simp
      have y: "(length ?Hr \<le> nat (?p - 1)) = (length (i # ?Hr) \<le> nat ?p)"
        using pierce_step_alive [OF pierce(2), of "length ?Hr"] by simp
      show ?thesis using ih x y by simp
    qed
    have c: "\<forall>j<length (c_enemies s). c_enemies (snd (bulletVsEnemies rest ?b1 ?s1)) ! j
           = (if j \<in> set (take (nat ?p + 1) (i # ?Hr))
              then fst (enemyTakeDamage (b_damage b) (c_enemies s ! j)) else c_enemies s ! j)"
    proof (intro allI impI)
      fix j assume j: "j < length (c_enemies s)"
      have ihj: "c_enemies (snd (bulletVsEnemies rest ?b1 ?s1)) ! j
           = (if j \<in> set (take (nat ?p) ?Hr)
              then fst (enemyTakeDamage (b_damage b) (c_enemies ?s1 ! j)) else c_enemies ?s1 ! j)"
        using ih j len1 np by simp
      have tk: "set (take (nat ?p + 1) (i # ?Hr)) = insert i (set (take (nat ?p) ?Hr))"
        by simp
      show "c_enemies (snd (bulletVsEnemies rest ?b1 ?s1)) ! j
           = (if j \<in> set (take (nat ?p + 1) (i # ?Hr))
              then fst (enemyTakeDamage (b_damage b) (c_enemies s ! j)) else c_enemies s ! j)"
      proof (cases "j = i")
        case True
        have "i \<notin> set (take (nat ?p) ?Hr)" using niH by (meson in_set_takeD)
        then show ?thesis using True ihj il tk by (simp add: bulletHit_enemies)
      next
        case False
        then show ?thesis using ihj tk by (simp add: bulletHit_enemies)
      qed
    qed
    have l: "length (c_enemies (snd (bulletVsEnemies rest ?b1 ?s1))) = length (c_enemies s)"
      using ih len1 by simp
    show ?thesis unfolding e f using a c l by simp
  qed
qed

lemma bulletUpdate_effect:
  "b_pierceLeft (bulletUpdate dt b) = b_pierceLeft b
   \<and> b_alive (bulletUpdate dt b)
       = (b_alive b \<and> \<not> outOfBounds (b_x b + b_vx b * dt) (b_y b + b_vy b * dt))"
  by (simp add: bulletUpdate_def Let_def)

subsection \<open>The candidates a grid query returns\<close>

lemma cellKeyOf_dims:
  "g_cols g' = g_cols g \<Longrightarrow> g_rows g' = g_rows g \<Longrightarrow> g_cellSize g' = g_cellSize g \<Longrightarrow>
   cellKeyOf g' enemies i = cellKeyOf g enemies i"
  by (simp add: cellKeyOf_def getKey_def)

lemma clear_holds:
  assumes "gridShape g" and "clear g = Some g'"
  shows "gridHolds g' enemies"
proof -
  have n: "nat (g_cellCount g) = length (g_cells g)"
    using assms(1) by (simp add: gridShape_def nat_eq_iff)
  have g': "g' = g\<lparr> g_cells := replicate (length (g_cells g)) [] \<rparr>"
    using assms(2) n by (simp add: clear_def split: if_splits)
  show ?thesis using assms(1) unfolding g' by (simp add: gridHolds_def gridShape_def)
qed

lemma insert_grid_holds:
  assumes h: "gridHolds g enemies" and i: "i < length enemies"
    and fresh: "\<forall>k<length (g_cells g). i \<notin> set (g_cells g ! k)"
    and ins: "insert_grid g (e_x (enemies ! i)) (e_y (enemies ! i)) i = Some g'"
  shows "gridHolds g' enemies"
    and "length (g_cells g') = length (g_cells g)"
    and "\<forall>k<length (g_cells g). set (g_cells g' ! k) \<subseteq> insert i (set (g_cells g ! k))"
proof -
  let ?key = "cellKeyOf g enemies i"
  have kr: "0 \<le> ?key \<and> ?key < int (length (g_cells g))"
    using ins by (simp add: insert_grid_def cellKeyOf_def Let_def split: if_splits)
  have g': "g' = g\<lparr> g_cells := (g_cells g)[nat ?key := g_cells g ! nat ?key @ [i]] \<rparr>"
    using ins by (simp add: insert_grid_def cellKeyOf_def Let_def split: if_splits)
  have sh: "gridShape g'" using h unfolding g' by (simp add: gridHolds_def gridShape_def)
  have ck: "\<And>j. cellKeyOf g' enemies j = cellKeyOf g enemies j"
    unfolding g' by (rule cellKeyOf_dims) simp_all
  show len: "length (g_cells g') = length (g_cells g)" unfolding g' by simp
  show sub: "\<forall>k<length (g_cells g). set (g_cells g' ! k) \<subseteq> insert i (set (g_cells g ! k))"
  proof (intro allI impI)
    fix k assume k: "k < length (g_cells g)"
    show "set (g_cells g' ! k) \<subseteq> insert i (set (g_cells g ! k))"
    proof (cases "k = nat ?key")
      case True
      then have "g_cells g' ! k = g_cells g ! k @ [i]" unfolding g' using k by simp
      then show ?thesis by auto
    next
      case False
      then have "g_cells g' ! k = g_cells g ! k" unfolding g' by simp
      then show ?thesis by auto
    qed
  qed
  have cells: "\<forall>k<length (g_cells g').
      distinct (g_cells g' ! k)
      \<and> (\<forall>j\<in>set (g_cells g' ! k). j < length enemies \<and> cellKeyOf g' enemies j = int k)"
  proof (intro allI impI)
    fix k assume k: "k < length (g_cells g')"
    then have kl: "k < length (g_cells g)" using len by simp
    have old: "distinct (g_cells g ! k)
        \<and> (\<forall>j\<in>set (g_cells g ! k). j < length enemies \<and> cellKeyOf g enemies j = int k)"
      using h kl by (simp add: gridHolds_def)
    show "distinct (g_cells g' ! k)
      \<and> (\<forall>j\<in>set (g_cells g' ! k). j < length enemies \<and> cellKeyOf g' enemies j = int k)"
    proof (cases "k = nat ?key")
      case True
      have c: "g_cells g' ! k = g_cells g ! k @ [i]" unfolding g' using True kl by simp
      have "int k = ?key" using True kr by simp
      then show ?thesis unfolding c ck using old fresh kl i by auto
    next
      case False
      have c: "g_cells g' ! k = g_cells g ! k" unfolding g' using False by simp
      show ?thesis unfolding c ck using old by simp
    qed
  qed
  show "gridHolds g' enemies" using sh cells by (simp add: gridHolds_def)
qed

lemma insertEnemies_holds:
  "gridHolds g enemies \<Longrightarrow> distinct is \<Longrightarrow>
   \<forall>i\<in>set is. i < length enemies \<and> (\<forall>k<length (g_cells g). i \<notin> set (g_cells g ! k)) \<Longrightarrow>
   insertEnemies g enemies is = Some g' \<Longrightarrow> gridHolds g' enemies"
proof (induction "is" arbitrary: g)
  case Nil
  then show ?case by simp
next
  case (Cons i "is")
  have d: "distinct is" and ni: "i \<notin> set is" using Cons.prems(2) by simp_all
  show ?case
  proof (cases "e_alive (enemies ! i)")
    case False
    then have r: "insertEnemies g enemies is = Some g'" using Cons.prems(4) by simp
    show ?thesis using Cons.IH [OF Cons.prems(1) d _ r] Cons.prems(3) by simp
  next
    case True
    obtain g1 where g1: "insert_grid g (e_x (enemies ! i)) (e_y (enemies ! i)) i = Some g1"
      and r: "insertEnemies g1 enemies is = Some g'"
      using Cons.prems(4) True by (simp split: option.splits)
    have il: "i < length enemies"
      and fr: "\<forall>k<length (g_cells g). i \<notin> set (g_cells g ! k)"
      using Cons.prems(3) by simp_all
    note st = insert_grid_holds [OF Cons.prems(1) il fr g1]
    have fresh: "\<forall>j\<in>set is. j < length enemies \<and> (\<forall>k<length (g_cells g1). j \<notin> set (g_cells g1 ! k))"
    proof (intro ballI conjI allI impI)
      fix j assume j: "j \<in> set is"
      show "j < length enemies" using Cons.prems(3) j by simp
    next
      fix j k assume j: "j \<in> set is" and k: "k < length (g_cells g1)"
      have kl: "k < length (g_cells g)" using k st(2) by simp
      have "j \<noteq> i" using j ni by auto
      moreover have "j \<notin> set (g_cells g ! k)" using Cons.prems(3) j kl by simp
      ultimately show "j \<notin> set (g_cells g1 ! k)" using st(3) kl by auto
    qed
    show ?thesis using Cons.IH [OF st(1) d fresh r] .
  qed
qed

lemma buildGrid_holds:
  assumes "gridShape grid" and "buildGrid grid enemies = Some g"
  shows "gridHolds g enemies"
proof -
  obtain g0 where g0: "clear grid = Some g0" and r: "insertEnemies g0 enemies [0..<length enemies] = Some g"
    using assms(2) by (simp add: buildGrid_def split: option.splits)
  have h0: "gridHolds g0 enemies" by (rule clear_holds [OF assms(1) g0])
  have n: "nat (g_cellCount grid) = length (g_cells grid)"
    using assms(1) by (simp add: gridShape_def nat_eq_iff)
  have "g0 = grid\<lparr> g_cells := replicate (length (g_cells grid)) [] \<rparr>"
    using g0 n by (simp add: clear_def split: if_splits)
  then have empty: "\<forall>k<length (g_cells g0). g_cells g0 ! k = []" by simp
  have "\<forall>i\<in>set [0..<length enemies].
          i < length enemies \<and> (\<forall>k<length (g_cells g0). i \<notin> set (g_cells g0 ! k))"
    using empty by simp
  then show ?thesis using insertEnemies_holds [OF h0 _ _ r] by simp
qed

lemma queryRow_result:
  "queryRow g r cs acc = Some res \<Longrightarrow>
   res = acc @ concat (map (\<lambda>c. g_cells g ! nat (getKey g c r)) cs)
   \<and> (\<forall>c\<in>set cs. 0 \<le> getKey g c r \<and> getKey g c r < int (length (g_cells g)))"
proof (induction cs arbitrary: acc)
  case Nil
  then show ?case by simp
next
  case (Cons c cs)
  obtain cell where c: "cellAt g (getKey g c r) = Some cell"
    and r: "queryRow g r cs (acc @ cell) = Some res"
    using Cons.prems by (simp split: option.splits)
  have k: "0 \<le> getKey g c r \<and> getKey g c r < int (length (g_cells g))"
    and cell: "cell = g_cells g ! nat (getKey g c r)"
    using c by (simp_all add: cellAt_def split: if_splits)
  show ?case using Cons.IH [OF r] k cell by simp
qed

lemma queryRows_result:
  "queryRows g rs cs acc = Some res \<Longrightarrow>
   res = acc @ concat (map (\<lambda>r. concat (map (\<lambda>c. g_cells g ! nat (getKey g c r)) cs)) rs)
   \<and> (\<forall>r\<in>set rs. \<forall>c\<in>set cs. 0 \<le> getKey g c r \<and> getKey g c r < int (length (g_cells g)))"
proof (induction rs arbitrary: acc)
  case Nil
  then show ?case by simp
next
  case (Cons r rs)
  obtain mid where m: "queryRow g r cs acc = Some mid" and rest: "queryRows g rs cs mid = Some res"
    using Cons.prems by (simp split: option.splits)
  show ?case using Cons.IH [OF rest] queryRow_result [OF m] by simp
qed

lemma distinct_concat_map:
  "distinct ks \<Longrightarrow> \<forall>k\<in>set ks. distinct (f k) \<Longrightarrow>
   \<forall>k\<in>set ks. \<forall>k'\<in>set ks. k \<noteq> k' \<longrightarrow> set (f k) \<inter> set (f k') = {} \<Longrightarrow>
   distinct (concat (map f ks))"
proof (induction ks)
  case Nil
  then show ?case by simp
next
  case (Cons k ks)
  have "distinct (concat (map f ks))" using Cons by simp
  moreover have "distinct (f k)" using Cons.prems(2) by simp
  moreover have "set (f k) \<inter> (\<Union>k'\<in>set ks. set (f k')) = {}"
    using Cons.prems(1,3) by fastforce
  ultimately show ?case by simp
qed

lemma in_concat_mapD: "i \<in> set (concat (map f ks)) \<Longrightarrow> \<exists>k\<in>set ks. i \<in> set (f k)"
  by auto

lemma getKey_inj:
  assumes "1 \<le> g_cols g" and "0 \<le> c" and "c \<le> g_cols g - 1" and "0 \<le> c'" and "c' \<le> g_cols g - 1"
    and "getKey g c r = getKey g c' r'"
  shows "r = r' \<and> c = c'"
proof -
  have e: "r * g_cols g + c = r' * g_cols g + c'" using assms(6) by (simp add: getKey_def)
  have "(r * g_cols g + c) div g_cols g = r" using assms(1,2,3) by simp
  moreover have "(r' * g_cols g + c') div g_cols g = r'" using assms(1,4,5) by simp
  ultimately have "r = r'" using e by simp
  then show ?thesis using e by simp
qed

lemma queryCircle_candidates:
  assumes h: "gridHolds g enemies" and q: "queryCircle g x y radius = Some nearby"
  shows "distinct nearby \<and> (\<forall>i\<in>set nearby. i < length enemies)"
proof -
  let ?rs = "[max 0 \<lfloor>(y - radius) / g_cellSize g\<rfloor>..min (g_rows g - 1) \<lfloor>(y + radius) / g_cellSize g\<rfloor>]"
  let ?cs = "[max 0 \<lfloor>(x - radius) / g_cellSize g\<rfloor>..min (g_cols g - 1) \<lfloor>(x + radius) / g_cellSize g\<rfloor>]"
  let ?cell = "\<lambda>r c. g_cells g ! nat (getKey g c r)"
  let ?row = "\<lambda>r. concat (map (?cell r) ?cs)"
  have qr: "queryRows g ?rs ?cs [] = Some nearby" using q by (simp add: queryCircle_def Let_def)
  have res: "nearby = concat (map ?row ?rs)"
    and valid: "\<forall>r\<in>set ?rs. \<forall>c\<in>set ?cs. 0 \<le> getKey g c r \<and> getKey g c r < int (length (g_cells g))"
    using queryRows_result [OF qr] by simp_all
  have cols: "1 \<le> g_cols g" using h by (simp add: gridHolds_def gridShape_def)
  have crange: "\<forall>c\<in>set ?cs. 0 \<le> c \<and> c \<le> g_cols g - 1" by auto
  have cell: "\<And>r c i. r \<in> set ?rs \<Longrightarrow> c \<in> set ?cs \<Longrightarrow> i \<in> set (?cell r c) \<Longrightarrow>
      i < length enemies \<and> cellKeyOf g enemies i = getKey g c r"
  proof -
    fix r c i assume r: "r \<in> set ?rs" and c: "c \<in> set ?cs" and i: "i \<in> set (?cell r c)"
    have k: "0 \<le> getKey g c r \<and> getKey g c r < int (length (g_cells g))" using valid r c by blast
    then have "nat (getKey g c r) < length (g_cells g)" by linarith
    then have "i < length enemies \<and> cellKeyOf g enemies i = int (nat (getKey g c r))"
      using h i by (simp add: gridHolds_def)
    then show "i < length enemies \<and> cellKeyOf g enemies i = getKey g c r" using k by simp
  qed
  have celld: "\<And>r c. r \<in> set ?rs \<Longrightarrow> c \<in> set ?cs \<Longrightarrow> distinct (?cell r c)"
  proof -
    fix r c assume r: "r \<in> set ?rs" and c: "c \<in> set ?cs"
    have "0 \<le> getKey g c r \<and> getKey g c r < int (length (g_cells g))" using valid r c by blast
    then have "nat (getKey g c r) < length (g_cells g)" by linarith
    then show "distinct (?cell r c)" using h by (simp add: gridHolds_def)
  qed
  have rowd: "\<forall>r\<in>set ?rs. distinct (?row r)"
  proof
    fix r assume r: "r \<in> set ?rs"
    show "distinct (?row r)"
    proof (rule distinct_concat_map)
      show "distinct ?cs" by simp
      show "\<forall>c\<in>set ?cs. distinct (?cell r c)" using celld [OF r] by blast
      show "\<forall>c\<in>set ?cs. \<forall>c'\<in>set ?cs. c \<noteq> c' \<longrightarrow> set (?cell r c) \<inter> set (?cell r c') = {}"
      proof (intro ballI impI)
        fix c c' assume c: "c \<in> set ?cs" and c': "c' \<in> set ?cs" and ne: "c \<noteq> c'"
        show "set (?cell r c) \<inter> set (?cell r c') = {}"
        proof (rule ccontr)
          assume "set (?cell r c) \<inter> set (?cell r c') \<noteq> {}"
          then obtain i where i1: "i \<in> set (?cell r c)" and i2: "i \<in> set (?cell r c')" by blast
          have "getKey g c r = getKey g c' r" using cell [OF r c i1] cell [OF r c' i2] by simp
          then have "c = c'" using getKey_inj [OF cols, of c c' r r] crange c c' by blast
          then show False using ne by simp
        qed
      qed
    qed
  qed
  have rowmem: "\<And>r i. r \<in> set ?rs \<Longrightarrow> i \<in> set (?row r) \<Longrightarrow>
      \<exists>c\<in>set ?cs. i < length enemies \<and> cellKeyOf g enemies i = getKey g c r"
  proof -
    fix r i assume r: "r \<in> set ?rs" and i: "i \<in> set (?row r)"
    then obtain c where c: "c \<in> set ?cs" and ic: "i \<in> set (?cell r c)"
      using in_concat_mapD [of i "?cell r" ?cs] by blast
    show "\<exists>c\<in>set ?cs. i < length enemies \<and> cellKeyOf g enemies i = getKey g c r"
      using cell [OF r c ic] c by blast
  qed
  have d: "distinct (concat (map ?row ?rs))"
  proof (rule distinct_concat_map)
    show "distinct ?rs" by simp
    show "\<forall>r\<in>set ?rs. distinct (?row r)" by (rule rowd)
    show "\<forall>r\<in>set ?rs. \<forall>r'\<in>set ?rs. r \<noteq> r' \<longrightarrow> set (?row r) \<inter> set (?row r') = {}"
    proof (intro ballI impI)
      fix r r' assume r: "r \<in> set ?rs" and r': "r' \<in> set ?rs" and ne: "r \<noteq> r'"
      show "set (?row r) \<inter> set (?row r') = {}"
      proof (rule ccontr)
        assume "set (?row r) \<inter> set (?row r') \<noteq> {}"
        then obtain i where i1: "i \<in> set (?row r)" and i2: "i \<in> set (?row r')" by blast
        obtain c where c: "c \<in> set ?cs" and k1: "cellKeyOf g enemies i = getKey g c r"
          using rowmem [OF r i1] by blast
        obtain c' where c': "c' \<in> set ?cs" and k2: "cellKeyOf g enemies i = getKey g c' r'"
          using rowmem [OF r' i2] by blast
        have "getKey g c r = getKey g c' r'" using k1 k2 by simp
        then have "r = r'" using getKey_inj [OF cols, of c c' r r'] crange c c' by blast
        then show False using ne by simp
      qed
    qed
  qed
  have v: "\<forall>i\<in>set nearby. i < length enemies"
  proof
    fix i assume "i \<in> set nearby"
    then have "i \<in> set (concat (map ?row ?rs))" unfolding res .
    then obtain r where r: "r \<in> set ?rs" and i: "i \<in> set (?row r)"
      using in_concat_mapD [of i ?row ?rs] by blast
    show "i < length enemies" using rowmem [OF r i] by blast
  qed
  show ?thesis using d v res by simp
qed

lemma built_grid_candidates:
  assumes "gridShape grid" and "buildGrid grid enemies = Some g"
    and "queryCircle g x y radius = Some nearby"
  shows "distinct nearby \<and> (\<forall>i\<in>set nearby. i < length enemies)"
  using queryCircle_candidates [OF buildGrid_holds [OF assms(1,2)] assms(3)] .

subsection \<open>Check 1 over the player bullets, and the life of a bullet\<close>

lemma checkPlayerBullets_dead:
  "\<not> b_alive b \<Longrightarrow>
   checkPlayerBullets g (b # bs) s = map_option (\<lambda>r. (b # fst r, snd r)) (checkPlayerBullets g bs s)"
  by (simp split: option.splits)

lemma checkPlayerBullets_alive:
  "b_alive b \<Longrightarrow> queryCircle g (b_x b) (b_y b) (b_radius b + 50) = Some nearby \<Longrightarrow>
   checkPlayerBullets g (b # bs) s
     = map_option (\<lambda>r. (fst (bulletVsEnemies nearby b s) # fst r, snd r))
         (checkPlayerBullets g bs (snd (bulletVsEnemies nearby b s)))"
  by (simp split: option.splits)

lemma enemyTakeDamage_position:
  "e_x (fst (enemyTakeDamage a e)) = e_x e \<and> e_y (fst (enemyTakeDamage a e)) = e_y e"
  by (simp add: enemyTakeDamage_def Let_def)

lemma bulletHit_positions:
  "length (c_enemies (bulletHit i b s)) = length (c_enemies s)
   \<and> (\<forall>j<length (c_enemies s).
         e_x (c_enemies (bulletHit i b s) ! j) = e_x (c_enemies s ! j)
         \<and> e_y (c_enemies (bulletHit i b s) ! j) = e_y (c_enemies s ! j))"
  by (cases "i < length (c_enemies s)")
     (auto simp: bulletHit_enemies nth_list_update enemyTakeDamage_position)

lemma bulletVsEnemies_positions:
  "length (c_enemies (snd (bulletVsEnemies nearby b s))) = length (c_enemies s)
   \<and> (\<forall>j<length (c_enemies s).
         e_x (c_enemies (snd (bulletVsEnemies nearby b s)) ! j) = e_x (c_enemies s ! j)
         \<and> e_y (c_enemies (snd (bulletVsEnemies nearby b s)) ! j) = e_y (c_enemies s ! j))"
proof (induction nearby arbitrary: b s)
  case Nil
  then show ?case by simp
next
  case (Cons i nearby)
  let ?b1 = "b\<lparr> b_pierceLeft := b_pierceLeft b - 1 \<rparr>"
  consider (skip) "\<not> bulletHits b s i"
    | (pierce) "bulletHits b s i" "b_pierceLeft b > 0"
    | (stop) "bulletHits b s i" "\<not> b_pierceLeft b > 0"
    by blast
  then show ?case
  proof cases
    case skip
    then show ?thesis unfolding bulletVsEnemies_Cons using Cons.IH [where b = b and s = s] by simp
  next
    case pierce
    then show ?thesis unfolding bulletVsEnemies_Cons
      using Cons.IH [where b = ?b1 and s = "bulletHit i b s"] bulletHit_positions [of i b s] by simp
  next
    case stop
    then show ?thesis unfolding bulletVsEnemies_Cons using bulletHit_positions [of i b s] by simp
  qed
qed

lemma gridHolds_same_positions:
  assumes "length es' = length es"
    and "\<forall>i<length es. e_x (es' ! i) = e_x (es ! i) \<and> e_y (es' ! i) = e_y (es ! i)"
    and "gridHolds g es"
  shows "gridHolds g es'"
proof -
  have k: "\<And>i. i < length es \<Longrightarrow> cellKeyOf g es' i = cellKeyOf g es i"
    using assms(2) by (simp add: cellKeyOf_def)
  show ?thesis using assms(1,3) k unfolding gridHolds_def by auto
qed

lemma bulletVsEnemies_keeps_grid:
  "gridHolds g (c_enemies s) \<Longrightarrow> gridHolds g (c_enemies (snd (bulletVsEnemies nearby b s)))"
  using gridHolds_same_positions [of "c_enemies (snd (bulletVsEnemies nearby b s))" "c_enemies s" g]
    bulletVsEnemies_positions [of nearby b s]
  by blast

lemma gridHolds_shape: "gridHolds g es \<Longrightarrow> gridShape g"
  by (simp add: gridHolds_def)

lemma check1_alive_step:
  assumes h: "gridHolds g (c_enemies s)" and a: "b_alive b" and p: "0 \<le> b_pierceLeft b"
  shows "\<exists>nearby. queryCircle g (b_x b) (b_y b) (b_radius b + 50) = Some nearby
     \<and> distinct nearby \<and> (\<forall>i\<in>set nearby. i < length (c_enemies s))
     \<and> checkPlayerBullets g (b # bs) s
         = map_option
             (\<lambda>r. (b\<lparr> b_pierceLeft := b_pierceLeft b
                          - int (min (length (filter (bulletHits b s) nearby)) (nat (b_pierceLeft b))),
                        b_alive := (length (filter (bulletHits b s) nearby) \<le> nat (b_pierceLeft b)) \<rparr>
                      # fst r, snd r))
             (checkPlayerBullets g bs (snd (bulletVsEnemies nearby b s)))
     \<and> gridHolds g (c_enemies (snd (bulletVsEnemies nearby b s)))
     \<and> (\<forall>j<length (c_enemies s).
           c_enemies (snd (bulletVsEnemies nearby b s)) ! j
             = (if j \<in> set (take (nat (b_pierceLeft b) + 1) (filter (bulletHits b s) nearby))
                then fst (enemyTakeDamage (b_damage b) (c_enemies s ! j))
                else c_enemies s ! j))"
proof -
  obtain nearby where q: "queryCircle g (b_x b) (b_y b) (b_radius b + 50) = Some nearby"
    using queryCircle_total [OF gridHolds_shape [OF h]] by blast
  have c: "distinct nearby \<and> (\<forall>i\<in>set nearby. i < length (c_enemies s))"
    by (rule queryCircle_candidates [OF h q])
  have d: "distinct nearby" and v: "\<forall>i\<in>set nearby. i < length (c_enemies s)" using c by simp_all
  note ex = bulletVsEnemies_exact [OF d v p]
  have f: "fst (bulletVsEnemies nearby b s)
      = b\<lparr> b_pierceLeft := b_pierceLeft b
               - int (min (length (filter (bulletHits b s) nearby)) (nat (b_pierceLeft b))),
            b_alive := (length (filter (bulletHits b s) nearby) \<le> nat (b_pierceLeft b)) \<rparr>"
    using ex a by simp
  have step: "checkPlayerBullets g (b # bs) s
         = map_option
             (\<lambda>r. (b\<lparr> b_pierceLeft := b_pierceLeft b
                          - int (min (length (filter (bulletHits b s) nearby)) (nat (b_pierceLeft b))),
                        b_alive := (length (filter (bulletHits b s) nearby) \<le> nat (b_pierceLeft b)) \<rparr>
                      # fst r, snd r))
             (checkPlayerBullets g bs (snd (bulletVsEnemies nearby b s)))"
    using checkPlayerBullets_alive [OF a q, of bs s] unfolding f .
  have k: "gridHolds g (c_enemies (snd (bulletVsEnemies nearby b s)))"
    by (rule bulletVsEnemies_keeps_grid [OF h])
  show ?thesis using q c step k ex by blast
qed

lemma checkAll_runs_check1:
  assumes "gridShape grid"
  shows "\<exists>g out s1. buildGrid grid enemies = Some g \<and> gridHolds g enemies
     \<and> checkAll bal grid player enemies playerBullets enemyBullets pickups = Some out
     \<and> checkPlayerBullets g playerBullets
           \<lparr> c_player = player, c_enemies = enemies, c_result = resetResult \<rparr>
         = Some (o_playerBullets out, s1)"
proof -
  let ?s0 = "\<lparr> c_player = player, c_enemies = enemies, c_result = resetResult \<rparr>"
  obtain g where g: "buildGrid grid enemies = Some g" and sh: "gridShape g"
    using buildGrid_total [OF assms] by blast
  have gh: "gridHolds g enemies" by (rule buildGrid_holds [OF assms g])
  obtain pbs s1 where c1: "checkPlayerBullets g playerBullets ?s0 = Some (pbs, s1)"
    using checkPlayerBullets_total [OF sh] by blast
  let ?s2 = "snd (checkEnemyBullets bal enemyBullets s1)"
  obtain s3 where c3: "checkContact bal g ?s2 = Some s3"
    using checkContact_total [OF sh] by blast
  let ?s4 = "checkExploders bal s3"
  let ?out = "\<lparr> o_grid = g, o_player = c_player ?s4, o_enemies = c_enemies ?s4,
                 o_playerBullets = pbs, o_enemyBullets = fst (checkEnemyBullets bal enemyBullets s1),
                 o_pickups = fst (checkPickups (c_player ?s4) pickups (c_result ?s4)),
                 o_result = snd (checkPickups (c_player ?s4) pickups (c_result ?s4)) \<rparr>"
  have all: "checkAll bal grid player enemies playerBullets enemyBullets pickups = Some ?out"
    using g c1 c3 by (simp add: checkAll_def Let_def)
  have "checkPlayerBullets g playerBullets ?s0 = Some (o_playerBullets ?out, s1)" using c1 by simp
  then show ?thesis using g gh all by blast
qed

lemma applyBulletEvent_Collided:
  "applyBulletEvent b (Collided g s) =
     (if \<not> b_alive b then b
      else (case queryCircle g (b_x b) (b_y b) (b_radius b + 50) of
              None \<Rightarrow> b
            | Some nearby \<Rightarrow> fst (bulletVsEnemies nearby b s)))"
  by (simp split: option.splits)

lemma applyBulletEvent_mono:
  "b_pierceLeft (applyBulletEvent b ev) \<le> b_pierceLeft b
   \<and> (0 \<le> b_pierceLeft b \<longrightarrow> 0 \<le> b_pierceLeft (applyBulletEvent b ev))
   \<and> (b_alive (applyBulletEvent b ev) \<longrightarrow> b_alive b)"
proof (cases ev)
  case (Moved dt)
  then show ?thesis by (simp add: bulletUpdate_effect)
next
  case (Collided g s)
  show ?thesis
  proof (cases "queryCircle g (b_x b) (b_y b) (b_radius b + 50)")
    case None
    then show ?thesis unfolding Collided applyBulletEvent_Collided by simp
  next
    case (Some nearby)
    then show ?thesis unfolding Collided applyBulletEvent_Collided
      using bulletVsEnemies_mono [of nearby b s] by simp
  qed
qed

lemma applyBulletEvent_alive_iff:
  assumes "validEvent ev" and "0 \<le> b_pierceLeft b"
  shows "b_alive (applyBulletEvent b ev) = (b_alive b \<and> \<not> killsBullet b ev)"
proof (cases ev)
  case (Moved dt)
  then show ?thesis by (simp add: bulletUpdate_effect)
next
  case (Collided g s)
  have h: "gridHolds g (c_enemies s)" using assms(1) Collided by simp
  obtain nearby where q: "queryCircle g (b_x b) (b_y b) (b_radius b + 50) = Some nearby"
    using queryCircle_total [OF gridHolds_shape [OF h]] by blast
  have c: "distinct nearby \<and> (\<forall>i\<in>set nearby. i < length (c_enemies s))"
    by (rule queryCircle_candidates [OF h q])
  have d: "distinct nearby" and v: "\<forall>i\<in>set nearby. i < length (c_enemies s)" using c by simp_all
  note ex = bulletVsEnemies_exact [OF d v assms(2)]
  show ?thesis
  proof (cases "b_alive b")
    case False
    then show ?thesis unfolding Collided applyBulletEvent_Collided by simp
  next
    case True
    have "b_alive (fst (bulletVsEnemies nearby b s))
        = (length (filter (bulletHits b s) nearby) \<le> nat (b_pierceLeft b))"
      using ex True by simp
    then show ?thesis unfolding Collided applyBulletEvent_Collided using True q by auto
  qed
qed

lemma bulletLife_snoc: "bulletLife b (evs @ [ev]) = applyBulletEvent (bulletLife b evs) ev"
  by (simp add: bulletLife_def)

lemma bulletLife_mono:
  "b_pierceLeft (bulletLife b evs) \<le> b_pierceLeft b
   \<and> (0 \<le> b_pierceLeft b \<longrightarrow> 0 \<le> b_pierceLeft (bulletLife b evs))
   \<and> (b_alive (bulletLife b evs) \<longrightarrow> b_alive b)"
proof (induction evs rule: rev_induct)
  case Nil
  then show ?case by (simp add: bulletLife_def)
next
  case (snoc ev evs)
  show ?case
    unfolding bulletLife_snoc
    using snoc.IH applyBulletEvent_mono [of "bulletLife b evs" ev] by auto
qed

lemma bulletLife_alive_iff:
  assumes "0 \<le> b_pierceLeft b"
  shows "\<forall>ev\<in>set evs. validEvent ev \<Longrightarrow>
    b_alive (bulletLife b evs)
      = (b_alive b \<and> (\<forall>k<length evs. \<not> killsBullet (bulletLife b (take k evs)) (evs ! k)))"
proof (induction evs rule: rev_induct)
  case Nil
  then show ?case by (simp add: bulletLife_def)
next
  case (snoc ev evs)
  have ve: "validEvent ev" and vs: "\<forall>ev\<in>set evs. validEvent ev" using snoc.prems by auto
  have pp: "0 \<le> b_pierceLeft (bulletLife b evs)" using bulletLife_mono [of b evs] assms by simp
  have st: "b_alive (bulletLife b (evs @ [ev]))
      = (b_alive (bulletLife b evs) \<and> \<not> killsBullet (bulletLife b evs) ev)"
    unfolding bulletLife_snoc by (rule applyBulletEvent_alive_iff [OF ve pp])
  have pre: "(\<forall>k<length (evs @ [ev]). \<not> killsBullet (bulletLife b (take k (evs @ [ev]))) ((evs @ [ev]) ! k))
      = ((\<forall>k<length evs. \<not> killsBullet (bulletLife b (take k evs)) (evs ! k))
         \<and> \<not> killsBullet (bulletLife b evs) ev)"
    (is "?L = (?A \<and> ?B)")
  proof
    assume l: ?L
    have "?A"
    proof (intro allI impI)
      fix k assume k: "k < length evs"
      then show "\<not> killsBullet (bulletLife b (take k evs)) (evs ! k)"
        using l [rule_format, of k] by (simp add: nth_append)
    qed
    moreover have ?B using l [rule_format, of "length evs"] by simp
    ultimately show "?A \<and> ?B" by simp
  next
    assume ab: "?A \<and> ?B"
    show ?L
    proof (intro allI impI)
      fix k assume k: "k < length (evs @ [ev])"
      show "\<not> killsBullet (bulletLife b (take k (evs @ [ev]))) ((evs @ [ev]) ! k)"
      proof (cases "k < length evs")
        case True
        then show ?thesis using ab by (simp add: nth_append)
      next
        case False
        then have "k = length evs" using k by simp
        then show ?thesis using ab by simp
      qed
    qed
  qed
  show ?case unfolding st pre using snoc.IH [OF vs] by blast
qed

lemma checkPlayerBullets_length:
  "checkPlayerBullets g bs s = Some (out, s') \<Longrightarrow> length out = length bs"
proof (induction bs arbitrary: s out s')
  case Nil
  then show ?case by simp
next
  case (Cons b bs)
  show ?case
  proof (cases "b_alive b")
    case False
    then obtain r where r: "checkPlayerBullets g bs s = Some r" and o: "out = b # fst r"
      using Cons.prems by (auto split: option.splits)
    have "length (fst r) = length bs" using Cons.IH [of s "fst r" "snd r"] r by simp
    then show ?thesis using o by simp
  next
    case True
    then obtain nearby r where q: "queryCircle g (b_x b) (b_y b) (b_radius b + 50) = Some nearby"
      and r: "checkPlayerBullets g bs (snd (bulletVsEnemies nearby b s)) = Some r"
      and o: "out = fst (bulletVsEnemies nearby b s) # fst r"
      using Cons.prems by (auto split: option.splits)
    have "length (fst r) = length bs"
      using Cons.IH [of "snd (bulletVsEnemies nearby b s)" "fst r" "snd r"] r by simp
    then show ?thesis using o by simp
  qed
qed

lemma checkPlayerBullets_append:
  "checkPlayerBullets g (xs @ ys) s =
     (case checkPlayerBullets g xs s of
        None \<Rightarrow> None
      | Some r1 \<Rightarrow>
          (case checkPlayerBullets g ys (snd r1) of
             None \<Rightarrow> None
           | Some r2 \<Rightarrow> Some (fst r1 @ fst r2, snd r2)))"
proof (induction xs arbitrary: s)
  case Nil
  then show ?case by (simp split: option.splits)
next
  case (Cons b xs)
  show ?case
  proof (cases "b_alive b")
    case False
    then show ?thesis using Cons.IH [of s] by (simp split: option.splits)
  next
    case True
    show ?thesis
    proof (cases "queryCircle g (b_x b) (b_y b) (b_radius b + 50)")
      case None
      then show ?thesis using True by simp
    next
      case (Some nearby)
      then show ?thesis
        using True Cons.IH [of "snd (bulletVsEnemies nearby b s)"] by (simp split: option.splits)
    qed
  qed
qed

lemma check1_each_bullet:
  assumes sh: "gridShape g" and k: "k < length bs"
  shows "\<exists>pre sk out s'. checkPlayerBullets g (take k bs) s = Some (pre, sk)
     \<and> checkPlayerBullets g bs s = Some (out, s')
     \<and> length out = length bs
     \<and> out ! k = applyBulletEvent (bs ! k) (Collided g sk)"
proof -
  obtain pre sk where p: "checkPlayerBullets g (take k bs) s = Some (pre, sk)"
    using checkPlayerBullets_total [OF sh, of "take k bs" s] by blast
  obtain one s1 where o: "checkPlayerBullets g [bs ! k] sk = Some (one, s1)"
    using checkPlayerBullets_total [OF sh, of "[bs ! k]" sk] by blast
  obtain post s2 where q: "checkPlayerBullets g (drop (Suc k) bs) s1 = Some (post, s2)"
    using checkPlayerBullets_total [OF sh, of "drop (Suc k) bs" s1] by blast
  have l1: "length pre = k" using checkPlayerBullets_length [OF p] k by simp
  have "length one = 1" using checkPlayerBullets_length [OF o] by simp
  then obtain b' where one: "one = [b']" by (cases one) auto
  have ap: "applyBulletEvent (bs ! k) (Collided g sk) = b'" using o one by simp
  have split: "bs = take k bs @ ([bs ! k] @ drop (Suc k) bs)"
    using k by (simp add: Cons_nth_drop_Suc)
  have mid: "checkPlayerBullets g ([bs ! k] @ drop (Suc k) bs) sk = Some ([b'] @ post, s2)"
    unfolding checkPlayerBullets_append [of g "[bs ! k]"] using o one q by simp
  have "checkPlayerBullets g (take k bs @ ([bs ! k] @ drop (Suc k) bs)) s
      = Some (pre @ ([b'] @ post), s2)"
    unfolding checkPlayerBullets_append [of g "take k bs"] using p mid by simp
  then have all: "checkPlayerBullets g bs s = Some (pre @ ([b'] @ post), s2)"
    using split by simp
  have "(pre @ ([b'] @ post)) ! k = b'" using l1 by (simp add: nth_append)
  then show ?thesis using p all checkPlayerBullets_length [OF all] ap by auto
qed

text \<open>
  C2. Check 1 and the life of a player bullet.
  The candidate loop for one bullet, over distinct references into the enemy array and
  with a non-negative pierce count: writing \<open>H\<close> for the candidates that are alive and
  overlap the bullet, in query order, exactly the first \<open>pierceLeft + 1\<close> of them take the
  bullet's damage (all of them when there are no more than that), every other enemy is
  untouched, \<open>pierceLeft\<close> drops by one per hit down to zero, and the bullet is marked
  not-alive exactly when \<open>H\<close> has more than \<open>pierceLeft\<close> members, that is when it hits an
  enemy with no pierce left; later candidates are then not examined.
  The loop over the player bullets: a bullet that is not alive is passed over, it and the
  state unchanged; for an alive bullet the grid is queried at the bullet's position with
  radius \<open>radius + 50\<close>, the query returns distinct references into the enemy array, the
  candidate loop runs on them with the effect just described, and the remaining bullets
  are processed from the state it leaves. Every bullet of the array is treated so, each
  from the state left by the bullets before it, and \<open>checkAll\<close> runs this loop on the grid
  it has built from the enemy array.
  \<open>Bullet.update\<close> leaves \<open>pierceLeft\<close> alone and marks the bullet not-alive exactly when
  the new position is outside the arena by more than the buffer.
  Over a life of moves and collision checks \<open>pierceLeft\<close> never increases and never
  becomes negative, a bullet that is not alive never becomes alive again, and the bullet
  is alive after the life exactly when it was alive before and no step of the life was a
  move out of bounds or a hit with no pierce left: it dies at the first such step.
\<close>

theorem bullet_pierce_and_death:
  "(distinct nearby \<and> (\<forall>i\<in>set nearby. i < length (c_enemies s)) \<and> 0 \<le> b_pierceLeft b \<longrightarrow>
      fst (bulletVsEnemies nearby b s)
        = b\<lparr> b_pierceLeft := b_pierceLeft b
               - int (min (length (filter (bulletHits b s) nearby)) (nat (b_pierceLeft b))),
             b_alive := (b_alive b \<and> length (filter (bulletHits b s) nearby) \<le> nat (b_pierceLeft b)) \<rparr>
      \<and> length (c_enemies (snd (bulletVsEnemies nearby b s))) = length (c_enemies s)
      \<and> (\<forall>j<length (c_enemies s).
            c_enemies (snd (bulletVsEnemies nearby b s)) ! j
              = (if j \<in> set (take (nat (b_pierceLeft b) + 1) (filter (bulletHits b s) nearby))
                 then fst (enemyTakeDamage (b_damage b) (c_enemies s ! j))
                 else c_enemies s ! j)))
   \<and> (\<not> b_alive b \<longrightarrow>
      checkPlayerBullets g (b # bs) s
        = map_option (\<lambda>r. (b # fst r, snd r)) (checkPlayerBullets g bs s))
   \<and> (gridHolds g (c_enemies s) \<and> b_alive b \<and> 0 \<le> b_pierceLeft b \<longrightarrow>
      (\<exists>cands. queryCircle g (b_x b) (b_y b) (b_radius b + 50) = Some cands
         \<and> distinct cands \<and> (\<forall>i\<in>set cands. i < length (c_enemies s))
         \<and> checkPlayerBullets g (b # bs) s
             = map_option
                 (\<lambda>r. (b\<lparr> b_pierceLeft := b_pierceLeft b
                              - int (min (length (filter (bulletHits b s) cands)) (nat (b_pierceLeft b))),
                            b_alive := (length (filter (bulletHits b s) cands) \<le> nat (b_pierceLeft b)) \<rparr>
                          # fst r, snd r))
                 (checkPlayerBullets g bs (snd (bulletVsEnemies cands b s)))
         \<and> gridHolds g (c_enemies (snd (bulletVsEnemies cands b s)))
         \<and> (\<forall>j<length (c_enemies s).
               c_enemies (snd (bulletVsEnemies cands b s)) ! j
                 = (if j \<in> set (take (nat (b_pierceLeft b) + 1) (filter (bulletHits b s) cands))
                    then fst (enemyTakeDamage (b_damage b) (c_enemies s ! j))
                    else c_enemies s ! j))))
   \<and> (gridShape g \<and> k < length bs \<longrightarrow>
      (\<exists>pre sk out s'. checkPlayerBullets g (take k bs) s = Some (pre, sk)
         \<and> checkPlayerBullets g bs s = Some (out, s')
         \<and> length out = length bs
         \<and> out ! k = applyBulletEvent (bs ! k) (Collided g sk)))
   \<and> (gridShape grid \<longrightarrow>
      (\<exists>gb out s1. buildGrid grid enemies = Some gb \<and> gridHolds gb enemies
         \<and> checkAll bal grid player enemies playerBullets enemyBullets pickups = Some out
         \<and> checkPlayerBullets gb playerBullets
               \<lparr> c_player = player, c_enemies = enemies, c_result = resetResult \<rparr>
             = Some (o_playerBullets out, s1)))
   \<and> b_pierceLeft (bulletUpdate dt b) = b_pierceLeft b
   \<and> b_alive (bulletUpdate dt b)
       = (b_alive b \<and> \<not> outOfBounds (b_x b + b_vx b * dt) (b_y b + b_vy b * dt))
   \<and> b_pierceLeft (bulletLife b evs) \<le> b_pierceLeft b
   \<and> (0 \<le> b_pierceLeft b \<longrightarrow> 0 \<le> b_pierceLeft (bulletLife b evs))
   \<and> (b_alive (bulletLife b evs) \<longrightarrow> b_alive b)
   \<and> (0 \<le> b_pierceLeft b \<and> (\<forall>ev\<in>set evs. validEvent ev) \<longrightarrow>
      b_alive (bulletLife b evs)
        = (b_alive b \<and> (\<forall>k<length evs. \<not> killsBullet (bulletLife b (take k evs)) (evs ! k))))"
proof -
  have a: "(distinct nearby \<and> (\<forall>i\<in>set nearby. i < length (c_enemies s)) \<and> 0 \<le> b_pierceLeft b \<longrightarrow>
      fst (bulletVsEnemies nearby b s)
        = b\<lparr> b_pierceLeft := b_pierceLeft b
               - int (min (length (filter (bulletHits b s) nearby)) (nat (b_pierceLeft b))),
             b_alive := (b_alive b \<and> length (filter (bulletHits b s) nearby) \<le> nat (b_pierceLeft b)) \<rparr>
      \<and> length (c_enemies (snd (bulletVsEnemies nearby b s))) = length (c_enemies s)
      \<and> (\<forall>j<length (c_enemies s).
            c_enemies (snd (bulletVsEnemies nearby b s)) ! j
              = (if j \<in> set (take (nat (b_pierceLeft b) + 1) (filter (bulletHits b s) nearby))
                 then fst (enemyTakeDamage (b_damage b) (c_enemies s ! j))
                 else c_enemies s ! j)))"
    using bulletVsEnemies_exact [of nearby s b] by blast
  have b: "(\<not> b_alive b \<longrightarrow>
      checkPlayerBullets g (b # bs) s
        = map_option (\<lambda>r. (b # fst r, snd r)) (checkPlayerBullets g bs s))"
    using checkPlayerBullets_dead [of b g bs s] by blast
  have c: "(gridHolds g (c_enemies s) \<and> b_alive b \<and> 0 \<le> b_pierceLeft b \<longrightarrow>
      (\<exists>cands. queryCircle g (b_x b) (b_y b) (b_radius b + 50) = Some cands
         \<and> distinct cands \<and> (\<forall>i\<in>set cands. i < length (c_enemies s))
         \<and> checkPlayerBullets g (b # bs) s
             = map_option
                 (\<lambda>r. (b\<lparr> b_pierceLeft := b_pierceLeft b
                              - int (min (length (filter (bulletHits b s) cands)) (nat (b_pierceLeft b))),
                            b_alive := (length (filter (bulletHits b s) cands) \<le> nat (b_pierceLeft b)) \<rparr>
                          # fst r, snd r))
                 (checkPlayerBullets g bs (snd (bulletVsEnemies cands b s)))
         \<and> gridHolds g (c_enemies (snd (bulletVsEnemies cands b s)))
         \<and> (\<forall>j<length (c_enemies s).
               c_enemies (snd (bulletVsEnemies cands b s)) ! j
                 = (if j \<in> set (take (nat (b_pierceLeft b) + 1) (filter (bulletHits b s) cands))
                    then fst (enemyTakeDamage (b_damage b) (c_enemies s ! j))
                    else c_enemies s ! j))))"
    using check1_alive_step [of g s b bs] by blast
  have d: "(gridShape g \<and> k < length bs \<longrightarrow>
      (\<exists>pre sk out s'. checkPlayerBullets g (take k bs) s = Some (pre, sk)
         \<and> checkPlayerBullets g bs s = Some (out, s')
         \<and> length out = length bs
         \<and> out ! k = applyBulletEvent (bs ! k) (Collided g sk)))"
    using check1_each_bullet [of g k bs s] by blast
  have e: "(gridShape grid \<longrightarrow>
      (\<exists>gb out s1. buildGrid grid enemies = Some gb \<and> gridHolds gb enemies
         \<and> checkAll bal grid player enemies playerBullets enemyBullets pickups = Some out
         \<and> checkPlayerBullets gb playerBullets
               \<lparr> c_player = player, c_enemies = enemies, c_result = resetResult \<rparr>
             = Some (o_playerBullets out, s1)))"
    using checkAll_runs_check1 [of grid enemies bal player playerBullets enemyBullets pickups] by blast
  have f1: "b_pierceLeft (bulletUpdate dt b) = b_pierceLeft b"
    using bulletUpdate_effect [of dt b] by blast
  have f2: "b_alive (bulletUpdate dt b)
       = (b_alive b \<and> \<not> outOfBounds (b_x b + b_vx b * dt) (b_y b + b_vy b * dt))"
    using bulletUpdate_effect [of dt b] by blast
  have g1: "b_pierceLeft (bulletLife b evs) \<le> b_pierceLeft b"
    using bulletLife_mono [of b evs] by blast
  have g2: "(0 \<le> b_pierceLeft b \<longrightarrow> 0 \<le> b_pierceLeft (bulletLife b evs))"
    using bulletLife_mono [of b evs] by blast
  have g3: "(b_alive (bulletLife b evs) \<longrightarrow> b_alive b)"
    using bulletLife_mono [of b evs] by blast
  have h: "(0 \<le> b_pierceLeft b \<and> (\<forall>ev\<in>set evs. validEvent ev) \<longrightarrow>
      b_alive (bulletLife b evs)
        = (b_alive b \<and> (\<forall>k<length evs. \<not> killsBullet (bulletLife b (take k evs)) (evs ! k))))"
    using bulletLife_alive_iff [of b evs] by blast
  show ?thesis by (intro conjI a b c d e f1 f2 g1 g2 g3 h)
qed

lemma threeBasics_enemy:
  "e_x (newEnemy 1530 1000 Basic 0 NORMAL) = 1530 \<and> e_y (newEnemy 1530 1000 Basic 0 NORMAL) = 1000
   \<and> e_radius (newEnemy 1530 1000 Basic 0 NORMAL) = 14 \<and> e_hp (newEnemy 1530 1000 Basic 0 NORMAL) = 3
   \<and> e_alive (newEnemy 1530 1000 Basic 0 NORMAL)"
  by (simp add: newEnemy_def Let_def NORMAL_def)

lemma threeGrid_built: "buildGrid enemyGrid (c_enemies threeBasics) = Some threeGrid"
  by (simp add: threeBasics_def threeGrid_def buildGrid_def clear_def insert_grid_def getKey_def
        enemyGrid_def newSpatialGrid_def Let_def threeBasics_enemy numeral_2_eq_2
        ARENA_WIDTH_def ARENA_HEIGHT_def SPATIAL_CELL_SIZE_def)

lemma threeGrid_holds: "gridHolds threeGrid (c_enemies threeBasics)"
  by (rule buildGrid_holds [OF enemyGrid_shape threeGrid_built])

lemma threeGrid_query:
  "queryCircle threeGrid 1520 1000 54 = Some [0, 1, 2]
   \<and> queryCircle threeGrid 1525 1000 54 = Some [0, 1, 2]"
  by (simp add: threeGrid_def queryCircle_def cellAt_def getKey_def enemyGrid_def newSpatialGrid_def
        Let_def ARENA_WIDTH_def ARENA_HEIGHT_def SPATIAL_CELL_SIZE_def upto_rec1)

lemma piercingBullet_loop:
  "fst (bulletVsEnemies [0, 1, 2] piercingBullet threeBasics)
     = piercingBullet\<lparr> b_pierceLeft := 0, b_alive := False \<rparr>
   \<and> map e_hp (c_enemies (snd (bulletVsEnemies [0, 1, 2] piercingBullet threeBasics))) = [2, 2, 3]"
  by (simp add: threeBasics_def piercingBullet_def newBullet_def bulletHit_def Let_def
        enemyTakeDamage_def threeBasics_enemy circlesOverlap_def)

lemma piercingBullet_check1:
  "checkPlayerBullets threeGrid [spentBullet, piercingBullet] threeBasics
     = Some ([spentBullet, fst (bulletVsEnemies [0, 1, 2] piercingBullet threeBasics)],
             snd (bulletVsEnemies [0, 1, 2] piercingBullet threeBasics))"
  using threeGrid_query
  by (simp add: spentBullet_def piercingBullet_def newBullet_def)

lemma piercingBullet_moved:
  "bulletUpdate (1/100) piercingBullet
     = piercingBullet\<lparr> b_trail := [(1520, 1000)], b_x := 1525, b_y := 1000 \<rparr>
   \<and> \<not> b_alive (bulletUpdate 4 piercingBullet)"
  by (simp add: piercingBullet_def newBullet_def bulletUpdate_def Let_def outOfBounds_def
        BULLET_OOB_BUFFER_def ARENA_WIDTH_def ARENA_HEIGHT_def MAX_TRAIL_LENGTH_def)

lemma movedBullet_loop:
  "fst (bulletVsEnemies [0, 1, 2]
          (piercingBullet\<lparr> b_trail := [(1520, 1000)], b_x := 1525, b_y := 1000 \<rparr>) threeBasics)
     = piercingBullet\<lparr> b_trail := [(1520, 1000)], b_x := 1525, b_y := 1000,
                          b_pierceLeft := 0, b_alive := False \<rparr>"
  by (simp add: threeBasics_def piercingBullet_def newBullet_def bulletHit_def Let_def
        enemyTakeDamage_def threeBasics_enemy circlesOverlap_def)

lemma movedBullet_hits:
  "nat (b_pierceLeft (piercingBullet\<lparr> b_trail := [(1520, 1000)], b_x := 1525, b_y := 1000 \<rparr>))
     < length (filter (bulletHits
          (piercingBullet\<lparr> b_trail := [(1520, 1000)], b_x := 1525, b_y := 1000 \<rparr>) threeBasics)
          [0, 1, 2])"
  by (simp add: threeBasics_def piercingBullet_def newBullet_def
        threeBasics_enemy circlesOverlap_def bulletHits_def bulletOverlaps_def)

text \<open>
  A bullet that is not alive and the bullet with one pierce left, against the three
  enemies: check 1 passes over the first; the second damages the first two enemies,
  spends its pierce on the first, dies on the second and never reaches the third. In a
  life, the same bullet survives a short move and dies at the collision step that
  follows, or dies at once on a move that takes it out of the arena.
\<close>

theorem bullet_pierce_and_death_witness:
  "gridHolds threeGrid (c_enemies threeBasics)
   \<and> map_option fst (checkPlayerBullets threeGrid [spentBullet, piercingBullet] threeBasics)
       = Some [spentBullet, piercingBullet\<lparr> b_pierceLeft := 0, b_alive := False \<rparr>]
   \<and> map_option (\<lambda>r. map e_hp (c_enemies (snd r)))
         (checkPlayerBullets threeGrid [spentBullet, piercingBullet] threeBasics)
       = Some [2, 2, 3]
   \<and> b_alive (bulletLife piercingBullet [Moved (1/100)])
   \<and> killsBullet (bulletLife piercingBullet [Moved (1/100)]) (Collided threeGrid threeBasics)
   \<and> \<not> b_alive (bulletLife piercingBullet [Moved (1/100), Collided threeGrid threeBasics])
   \<and> b_pierceLeft (bulletLife piercingBullet [Moved (1/100), Collided threeGrid threeBasics]) = 0
   \<and> \<not> b_alive (bulletLife piercingBullet [Moved 4])"
proof -
  let ?mb = "piercingBullet\<lparr> b_trail := [(1520, 1000)], b_x := 1525, b_y := 1000 \<rparr>"
  have w1: "map_option fst (checkPlayerBullets threeGrid [spentBullet, piercingBullet] threeBasics)
       = Some [spentBullet, piercingBullet\<lparr> b_pierceLeft := 0, b_alive := False \<rparr>]"
    by (simp only: piercingBullet_check1 piercingBullet_loop option.map fst_conv)
  have w2: "map_option (\<lambda>r. map e_hp (c_enemies (snd r)))
         (checkPlayerBullets threeGrid [spentBullet, piercingBullet] threeBasics)
       = Some [2, 2, 3]"
    by (simp only: piercingBullet_check1 piercingBullet_loop option.map snd_conv)
  have m1: "bulletLife piercingBullet [Moved (1/100)] = ?mb"
    by (simp add: bulletLife_def piercingBullet_moved)
  have mba: "b_alive ?mb" and mbp: "b_pierceLeft ?mb = 1"
    by (simp_all add: piercingBullet_def newBullet_def)
  have q: "queryCircle threeGrid (b_x ?mb) (b_y ?mb) (b_radius ?mb + 50) = Some [0, 1, 2]"
    using threeGrid_query by (simp add: piercingBullet_def newBullet_def)
  have w3: "b_alive (bulletLife piercingBullet [Moved (1/100)])"
    unfolding m1 by (rule mba)
  have w4: "killsBullet (bulletLife piercingBullet [Moved (1/100)]) (Collided threeGrid threeBasics)"
    unfolding m1 killsBullet.simps q option.case by (rule movedBullet_hits)
  have m2: "bulletLife piercingBullet [Moved (1/100), Collided threeGrid threeBasics]
      = fst (bulletVsEnemies [0, 1, 2] ?mb threeBasics)"
  proof -
    have "bulletLife piercingBullet [Moved (1/100), Collided threeGrid threeBasics]
        = applyBulletEvent (bulletLife piercingBullet [Moved (1/100)]) (Collided threeGrid threeBasics)"
      using bulletLife_snoc [of piercingBullet "[Moved (1/100)]" "Collided threeGrid threeBasics"]
      by (simp only: append.simps)
    also have "\<dots> = fst (bulletVsEnemies [0, 1, 2] ?mb threeBasics)"
      unfolding m1 applyBulletEvent_Collided q option.case using mba by (simp only: if_False not_True_eq_False)
    finally show ?thesis .
  qed
  have w5: "\<not> b_alive (bulletLife piercingBullet [Moved (1/100), Collided threeGrid threeBasics])"
    unfolding m2 movedBullet_loop by simp
  have w6: "b_pierceLeft (bulletLife piercingBullet [Moved (1/100), Collided threeGrid threeBasics]) = 0"
    unfolding m2 movedBullet_loop by simp
  have w7: "\<not> b_alive (bulletLife piercingBullet [Moved 4])"
    using piercingBullet_moved by (simp add: bulletLife_def)
  note inst = bullet_pierce_and_death [where b = piercingBullet and g = threeGrid and s = threeBasics
      and bs = "[]" and evs = "[Moved (1/100), Collided threeGrid threeBasics]"]
  show ?thesis using inst by - (intro conjI threeGrid_holds w1 w2 w3 w4 w5 w6 w7)
qed

end
